theory Spec2Isabelle
  imports Complex_Main "HOL-Library.Monad_Syntax"
begin

section \<open>Host values\<close>

text \<open>
  Luau numbers are modelled as exact reals: rounding, infinities and NaN of the
  host's floating point are outside this development. \<open>Vector2\<close>, \<open>Vector3\<close> and
  \<open>UDim2\<close> are the host's value types; \<open>X2\<close>, \<open>Y2\<close> are the \<open>X\<close>, \<open>Y\<close> of a
  \<open>Vector2\<close>.
\<close>

datatype Vector2 = Vector2 (X2: real) (Y2: real)

datatype Vector3 = Vector3 (X: real) (Y: real) (Z: real)

datatype UDim2 = UDim2 (XScale: real) (XOffset: real) (YScale: real) (YOffset: real)

definition sub :: "Vector2 \<Rightarrow> Vector2 \<Rightarrow> Vector2" where
  "sub a b = Vector2 (X2 a - X2 b) (Y2 a - Y2 b)"

definition add :: "Vector2 \<Rightarrow> Vector2 \<Rightarrow> Vector2" where
  "add a b = Vector2 (X2 a + X2 b) (Y2 a + Y2 b)"

definition div_scalar :: "Vector2 \<Rightarrow> real \<Rightarrow> Vector2" where
  "div_scalar a k = Vector2 (X2 a / k) (Y2 a / k)"

definition Magnitude :: "Vector2 \<Rightarrow> real" where
  "Magnitude v = sqrt ((X2 v)\<^sup>2 + (Y2 v)\<^sup>2)"

text \<open>
  \<open>math.atan2 y x\<close>: the angle of the point \<open>(x, y)\<close> in \<open>(-pi, pi]\<close>, and \<open>0\<close> at the
  origin; \<open>math.deg\<close> converts radians to degrees.
\<close>

definition math_atan2 :: "real \<Rightarrow> real \<Rightarrow> real" where
  "math_atan2 y x =
     (if 0 < x then arctan (y / x)
      else if x < 0 \<and> 0 \<le> y then arctan (y / x) + pi
      else if x < 0 then arctan (y / x) - pi
      else if 0 < y then pi / 2
      else if y < 0 then - (pi / 2)
      else 0)"

definition math_deg :: "real \<Rightarrow> real" where
  "math_deg r = r * 180 / pi"

section \<open>Screen primitives\<close>

text \<open>
  A \<open>Frame\<close> or \<open>TextLabel\<close> of the host, with the properties the overlay reads or
  writes (colours, fonts, anchor points and other styling are left out). \<open>Parent\<close>
  is \<open>None\<close> for an instance that is not in the tree; \<open>Destroyed\<close> records that
  \<open>Destroy\<close> has been called on it.
\<close>

datatype parent = ScreenGui | Child nat

record GuiObject =
  Visible :: bool
  Position :: UDim2
  Size :: UDim2
  Rotation :: real
  Text :: string
  Parent :: "parent option"
  Destroyed :: bool

text \<open>\<open>new Instance("Frame")\<close>: visible, at the origin, of size zero, without a parent.\<close>

definition Instance_new :: GuiObject where
  "Instance_new = \<lparr>Visible = True, Position = UDim2 0 0 0 0, Size = UDim2 0 0 0 0,
     Rotation = 0, Text = [], Parent = None, Destroyed = False\<rparr>"

definition updateLineFromPoints :: "GuiObject \<Rightarrow> Vector2 \<Rightarrow> Vector2 \<Rightarrow> GuiObject" where
  "updateLineFromPoints line from to =
     (let displacement = sub to from;
          distance = Magnitude displacement;
          midpoint = add from (div_scalar displacement 2);
          angle = math_deg (math_atan2 (Y2 displacement) (X2 displacement))
      in line\<lparr>Position := UDim2 0 (X2 midpoint) 0 (Y2 midpoint),
              Size := UDim2 0 distance 0 (YOffset (Size line)),
              Rotation := angle\<rparr>)"

section \<open>The world outside the Bin\<close>

text \<open>
  A connection made with \<open>entity.AncestryChanged.Connect\<close>: the entity whose signal it
  listens to, the overlay whose \<open>destroy\<close> the handler calls, and whether it is still
  connected.
\<close>

record Connection =
  signal :: nat
  listener :: nat
  Connected :: bool

text \<open>
  Everything a released item can act on: the registry \<open>ESP.instances\<close> (entity to
  overlay), the host's GUI instances (an instance is its index), the host's
  connections (likewise) and the threads cancelled so far.
\<close>

record world =
  instances :: "nat \<rightharpoonup> nat"
  gui :: "GuiObject list"
  connections :: "Connection list"
  cancelled :: "nat list"

datatype error = Error string

text \<open>
  What a call can do: change the world and return, or change the world and raise. The
  Bins are not part of the world: a callback or a \<open>destroy\<close> method released by a Bin
  does not add to that Bin or destroy it in turn (no item of this program does).
\<close>

type_synonym action = "world \<Rightarrow> world \<times> error option"

text \<open>
  \<open>Instance:Destroy()\<close>: the instance and its children leave the tree and are marked
  destroyed (the GUI trees of this program are one level deep). Destroying twice is
  harmless.
\<close>

definition destroyed_obj :: "GuiObject \<Rightarrow> GuiObject" where
  "destroyed_obj g = g\<lparr>Parent := None, Destroyed := True\<rparr>"

definition Instance_Destroy :: "nat \<Rightarrow> action" where
  "Instance_Destroy i w =
     (w\<lparr>gui := map (\<lambda>(j, g). if j = i \<or> Parent g = Some (Child i) then destroyed_obj g else g)
                    (zip [0 ..< length (gui w)] (gui w))\<rparr>, None)"

definition Disconnect :: "nat \<Rightarrow> world \<Rightarrow> world" where
  "Disconnect c w =
     (if c < length (connections w)
      then w\<lparr>connections := (connections w)[c := (connections w ! c)\<lparr>Connected := False\<rparr>]\<rparr>
      else w)"

definition task_cancel :: "nat \<Rightarrow> world \<Rightarrow> world" where
  "task_cancel t w = w\<lparr>cancelled := cancelled w @ [t]\<rparr>"

section \<open>Bin\<close>

text \<open>
  \<open>Bin.Item\<close>: a function, a connection, a thread, or an object; an object is given by
  its \<open>destroy\<close> and \<open>Destroy\<close> methods, \<open>None\<close> for a method it does not have.
\<close>

datatype Item =
    Function action
  | RBXScriptConnection nat
  | Thread nat
  | Object "action option" "action option"

text \<open>The body of the loop of \<open>destroy\<close>: the branch is chosen by the kind of the item.\<close>

fun release :: "Item \<Rightarrow> action" where
  "release (Function f) w = f w"
| "release (RBXScriptConnection c) w = (Disconnect c w, None)"
| "release (Thread t) w = (task_cancel t w, None)"
| "release (Object (Some m) M) w = m w"
| "release (Object None (Some M)) w = M w"
| "release (Object None None) w = (w, None)"

text \<open>
  A \<open>Node\<close> is an object on the heap. Nodes are created in \<open>add\<close> only and are reachable
  only through the private fields of their Bin, so a Bin carries the store of its own
  nodes: a node is its index in \<open>nodes\<close>, and \<open>head\<close>, \<open>tail\<close> and \<open>nxt\<close> (the field
  \<open>next\<close>) are references into it.
\<close>

record Node =
  item :: Item
  nxt :: "nat option"

record Bin =
  head :: "nat option"
  tail :: "nat option"
  nodes :: "Node list"

definition Bin_new :: Bin where
  "Bin_new = \<lparr>head = None, tail = None, nodes = []\<rparr>"

definition Bin_add :: "Item \<Rightarrow> Bin \<Rightarrow> Bin" where
  "Bin_add it b =
     (let node = length (nodes b);
          b1 = b\<lparr>nodes := nodes b @ [\<lparr>item = it, nxt = None\<rparr>]\<rparr>;
          b2 = (case head b1 of None \<Rightarrow> b1\<lparr>head := Some node\<rparr> | Some _ \<Rightarrow> b1);
          b3 = (case tail b2 of
                  Some t \<Rightarrow> b2\<lparr>nodes := (nodes b2)[t := (nodes b2 ! t)\<lparr>nxt := Some node\<rparr>]\<rparr>
                | None \<Rightarrow> b2)
      in b3\<lparr>tail := Some node\<rparr>)"

text \<open>
  The loop of \<open>destroy\<close>, with the local variable \<open>head\<close> as first argument \<open>cur\<close>. A raise
  inside a release leaves the loop at once: nothing in \<open>destroy\<close> catches it. The loop
  follows \<open>next\<close> references for as long as there are any, so the result is an option:
  \<open>None\<close> when it never returns.
\<close>

partial_function (option) destroy_loop ::
  "nat option \<Rightarrow> Bin \<Rightarrow> world \<Rightarrow> (Bin \<times> world \<times> error option) option" where
  "destroy_loop cur b w =
     (case cur of
        None \<Rightarrow> Some (b, w, None)
      | Some a \<Rightarrow>
          (case release (item (nodes b ! a)) w of
             (w', Some e) \<Rightarrow> Some (b, w', Some e)
           | (w', None) \<Rightarrow>
               destroy_loop (nxt (nodes b ! a)) (b\<lparr>head := nxt (nodes b ! a)\<rparr>) w'))"

definition Bin_destroy :: "Bin \<Rightarrow> world \<Rightarrow> (Bin \<times> world \<times> error option) option" where
  "Bin_destroy b w = destroy_loop (head b) b w"

definition isEmpty :: "Bin \<Rightarrow> bool" where
  "isEmpty b \<longleftrightarrow> head b = None"

text \<open>
  The items a Bin holds, as a list: \<open>list_seg ns p as\<close> says that following \<open>next\<close> from
  \<open>p\<close> visits exactly the nodes \<open>as\<close> and then ends. \<open>bin_inv b as\<close> is the shape every
  Bin has: its list runs from \<open>head\<close> through distinct nodes, and \<open>tail\<close> is the last
  of them when there is one (after a \<open>destroy\<close> it still refers to the old last node).
\<close>

fun list_seg :: "Node list \<Rightarrow> nat option \<Rightarrow> nat list \<Rightarrow> bool" where
  "list_seg ns p [] \<longleftrightarrow> p = None"
| "list_seg ns p (a # as) \<longleftrightarrow> p = Some a \<and> a < length ns \<and> list_seg ns (nxt (ns ! a)) as"

definition bin_inv :: "Bin \<Rightarrow> nat list \<Rightarrow> bool" where
  "bin_inv b as \<longleftrightarrow>
     list_seg (nodes b) (head b) as \<and> distinct as \<and>
     (as \<noteq> [] \<longrightarrow> tail b = Some (last as)) \<and>
     (case tail b of None \<Rightarrow> True | Some t \<Rightarrow> t < length (nodes b))"

definition items_of :: "Bin \<Rightarrow> nat list \<Rightarrow> Item list" where
  "items_of b as = map (\<lambda>a. item (nodes b ! a)) as"

text \<open>
  Releasing a list of items one after the other, stopping at the first raise: the
  items not released (the one that raised first), the world, and the error if any.
\<close>

fun release_all :: "Item list \<Rightarrow> world \<Rightarrow> Item list \<times> world \<times> error option" where
  "release_all [] w = ([], w, None)"
| "release_all (x # xs) w =
     (case release x w of
        (w', Some e) \<Rightarrow> (x # xs, w', Some e)
      | (w', None) \<Rightarrow> release_all xs w')"

text \<open>The reference to the first node of a list of nodes.\<close>

fun hd_opt :: "'a list \<Rightarrow> 'a option" where
  "hd_opt [] = None"
| "hd_opt (a # _) = Some a"

text \<open>The Bins a program can build: a new one, one after an \<open>add\<close>, one after a \<open>destroy\<close>.\<close>

inductive Bin_reachable :: "Bin \<Rightarrow> bool" where
  new: "Bin_reachable Bin_new"
| added: "Bin_reachable b \<Longrightarrow> Bin_reachable (Bin_add it b)"
| destroyed: "Bin_reachable b \<Longrightarrow> Bin_destroy b w = Some (b', w', e) \<Longrightarrow> Bin_reachable b'"

section \<open>Entities and their rig\<close>

text \<open>
  An entity is a \<open>Model\<close> of the host: \<open>ref\<close> is its identity (the key of the
  registry), \<open>Parts\<close> gives the \<open>Size\<close> of each child part by name, and \<open>Humanoid\<close>
  the \<open>DisplayName\<close> of its child \<open>Humanoid\<close>, if it has one.
\<close>

record Model =
  ref :: nat
  Name :: string
  Parts :: "string \<rightharpoonup> Vector3"
  Humanoid :: "string option"

text \<open>
  \<open>entity.WaitForChild(name)\<close> gives the \<open>Size\<close> of the part. Without a time-out it
  waits for as long as the child is missing, so \<open>None\<close> stands for a call that does
  not return; with a time-out, \<open>None\<close> is the \<open>undefined\<close> it returns.
\<close>

definition WaitForChild :: "Model \<Rightarrow> string \<Rightarrow> Vector3 option" where
  "WaitForChild m n = Parts m n"

datatype point = C | T | B | BL | BR | TL | TR

datatype bone =
    face | neck | waist
  | right_shoulder | right_hand | right_hip | right_foot
  | left_shoulder | left_hand | left_hip | left_foot

datatype anchor = OnPart string | OnPoint point

text \<open>An \<open>Attachment\<close>: its \<open>Position\<close> and its \<open>Parent\<close>.\<close>

record Attachment =
  offset :: Vector3
  attached :: "anchor option"

text \<open>\<open>new Instance("Attachment")\<close>: at the origin of no parent.\<close>

definition Attachment_new :: Attachment where
  "Attachment_new = \<lparr>offset = Vector3 0 0 0, attached = None\<rparr>"

definition constructPoints :: "Model \<Rightarrow> (point \<Rightarrow> Attachment) option" where
  "constructPoints m = do {
     head_size \<leftarrow> WaitForChild m ''Head'';
     (root_name, root_size) \<leftarrow>
       (case WaitForChild m ''HumanoidRootPart'' of
          Some r \<Rightarrow> Some (''HumanoidRootPart'', r)
        | None \<Rightarrow> map_option (Pair ''Torso'') (WaitForChild m ''Torso''));
     right_arm_size \<leftarrow> WaitForChild m ''Right Arm'';
     right_leg_size \<leftarrow> WaitForChild m ''Right Leg'';
     let U = Y root_size / 2 + Y head_size + 0.4;
         D = - Y root_size / 2 - Y right_leg_size - 0.3;
         LR = X root_size / 2 + X right_arm_size + 0.2
     in Some (\<lambda>p. case p of
          C \<Rightarrow> Attachment_new\<lparr>attached := Some (OnPart root_name)\<rparr>
        | T \<Rightarrow> \<lparr>offset = Vector3 0 U 0, attached = Some (OnPoint C)\<rparr>
        | B \<Rightarrow> \<lparr>offset = Vector3 0 D 0, attached = Some (OnPoint C)\<rparr>
        | BL \<Rightarrow> \<lparr>offset = Vector3 (- LR) 0 0, attached = Some (OnPoint B)\<rparr>
        | BR \<Rightarrow> \<lparr>offset = Vector3 LR 0 0, attached = Some (OnPoint B)\<rparr>
        | TL \<Rightarrow> \<lparr>offset = Vector3 (- LR) 0 0, attached = Some (OnPoint T)\<rparr>
        | TR \<Rightarrow> \<lparr>offset = Vector3 LR 0 0, attached = Some (OnPoint T)\<rparr>)
   }"

definition constructBones :: "Model \<Rightarrow> (bone \<Rightarrow> Attachment) option" where
  "constructBones m = do {
     head_size \<leftarrow> WaitForChild m ''Head'';
     torso_size \<leftarrow> WaitForChild m ''Torso'';
     right_arm_size \<leftarrow> WaitForChild m ''Right Arm'';
     right_leg_size \<leftarrow> WaitForChild m ''Right Leg'';
     left_arm_size \<leftarrow> WaitForChild m ''Left Arm'';
     left_leg_size \<leftarrow> WaitForChild m ''Left Leg'';
     let head_y = Y head_size / 2;
         torso_y = Y torso_size / 2;
         arm_y = Y right_arm_size / 2;
         leg_y = Y right_leg_size / 2
     in Some (\<lambda>j. case j of
          face \<Rightarrow> \<lparr>offset = Vector3 0 head_y 0, attached = Some (OnPart ''Head'')\<rparr>
        | neck \<Rightarrow> \<lparr>offset = Vector3 0 torso_y 0, attached = Some (OnPart ''Torso'')\<rparr>
        | waist \<Rightarrow> \<lparr>offset = Vector3 0 (- torso_y) 0, attached = Some (OnPart ''Torso'')\<rparr>
        | right_shoulder \<Rightarrow> \<lparr>offset = Vector3 0 arm_y 0, attached = Some (OnPart ''Right Arm'')\<rparr>
        | right_hand \<Rightarrow> \<lparr>offset = Vector3 0 (- arm_y) 0, attached = Some (OnPart ''Right Arm'')\<rparr>
        | right_hip \<Rightarrow> \<lparr>offset = Vector3 0 leg_y 0, attached = Some (OnPart ''Right Leg'')\<rparr>
        | right_foot \<Rightarrow> \<lparr>offset = Vector3 0 (- leg_y) 0, attached = Some (OnPart ''Right Leg'')\<rparr>
        | left_shoulder \<Rightarrow> \<lparr>offset = Vector3 0 arm_y 0, attached = Some (OnPart ''Left Arm'')\<rparr>
        | left_hand \<Rightarrow> \<lparr>offset = Vector3 0 (- arm_y) 0, attached = Some (OnPart ''Left Arm'')\<rparr>
        | left_hip \<Rightarrow> \<lparr>offset = Vector3 0 leg_y 0, attached = Some (OnPart ''Left Leg'')\<rparr>
        | left_foot \<Rightarrow> \<lparr>offset = Vector3 0 (- leg_y) 0, attached = Some (OnPart ''Left Leg'')\<rparr>)
   }"

text \<open>
  Where a box point sits relative to the part it hangs from: the offsets along its
  chain of parents, added up (attachments are never rotated), and the part the chain
  ends at. The chains of \<open>constructPoints\<close> have at most three links.
\<close>

fun chain :: "nat \<Rightarrow> (point \<Rightarrow> Attachment) \<Rightarrow> point \<Rightarrow> (string \<times> Vector3) option" where
  "chain 0 pts p = None"
| "chain (Suc k) pts p =
     (case attached (pts p) of
        None \<Rightarrow> None
      | Some (OnPart n) \<Rightarrow> Some (n, offset (pts p))
      | Some (OnPoint q) \<Rightarrow>
          map_option (\<lambda>(n, v). (n, Vector3 (X v + X (offset (pts p))) (Y v + Y (offset (pts p)))
                                               (Z v + Z (offset (pts p)))))
            (chain k pts q))"

section \<open>ESP\<close>

record Labels =
  container :: nat
  name :: nat
  data :: nat

text \<open>
  An overlay. \<open>entity\<close> is the field \<open>instance\<close>, \<open>humanoid\<close> the display name of
  its humanoid; lines and labels are references to GUI instances of the world.
\<close>

record ESP =
  bin :: Bin
  entity :: Model
  humanoid :: string
  points :: "point \<Rightarrow> Attachment"
  bones :: "bone \<Rightarrow> Attachment"
  box_lines :: "nat list"
  bone_lines :: "nat list"
  labels :: Labels

text \<open>The program's state: the world, and the overlays made so far (an overlay is its index).\<close>

record state =
  world :: world
  esps :: "ESP list"

definition new_Instance :: "GuiObject \<Rightarrow> world \<Rightarrow> nat \<times> world" where
  "new_Instance g w = (length (gui w), w\<lparr>gui := gui w @ [g]\<rparr>)"

definition modify :: "nat \<Rightarrow> (GuiObject \<Rightarrow> GuiObject) \<Rightarrow> world \<Rightarrow> world" where
  "modify i f w = w\<lparr>gui := (gui w)[i := f (gui w ! i)]\<rparr>"

text \<open>
  A GUI instance as an item of a Bin: by its type it has \<open>Destroy\<close>; the host's
  lower-case alias does the same.
\<close>

definition instance_item :: "nat \<Rightarrow> Item" where
  "instance_item i = Object None (Some (Instance_Destroy i))"

text \<open>The callback \<open>() => instances.delete(entity)\<close>.\<close>

definition instances_delete :: "nat \<Rightarrow> action" where
  "instances_delete e w = (w\<lparr>instances := (instances w)(e := None)\<rparr>, None)"

text \<open>
  One turn of a loop of \<open>constructLines\<close>, and the loop: a new \<open>Frame\<close>, hidden and
  parented to the \<open>ScreenGui\<close>, goes into the list and into the Bin.
\<close>

definition hidden_line :: GuiObject where
  "hidden_line = Instance_new\<lparr>Visible := False, Parent := Some ScreenGui\<rparr>"

definition new_line :: "Bin \<Rightarrow> world \<Rightarrow> nat \<times> Bin \<times> world" where
  "new_line b w =
     (let (line, w1) = new_Instance hidden_line w
      in (line, Bin_add (instance_item line) b, w1))"

fun new_lines :: "nat \<Rightarrow> Bin \<Rightarrow> world \<Rightarrow> nat list \<times> Bin \<times> world" where
  "new_lines 0 b w = ([], b, w)"
| "new_lines (Suc k) b w =
     (let (line, b1, w1) = new_line b w;
          (lines, b2, w2) = new_lines k b1 w1
      in (line # lines, b2, w2))"

definition constructLines :: "Bin \<Rightarrow> world \<Rightarrow> nat list \<times> nat list \<times> Bin \<times> world" where
  "constructLines b w =
     (let (box_lines, b1, w1) = new_lines 4 b w;
          (bone_lines, b2, w2) = new_lines 10 b1 w1
      in (box_lines, bone_lines, b2, w2))"

definition setLabels :: "Labels \<Rightarrow> Model \<Rightarrow> string \<Rightarrow> Bin \<Rightarrow> world \<Rightarrow> Bin \<times> world" where
  "setLabels l m display b w =
     (let w1 = modify (container l) (\<lambda>g. g\<lparr>Visible := False\<rparr>) w;
          w2 = modify (name l)
                 (\<lambda>g. g\<lparr>Size := UDim2 1 0 0 14, Text := Name m @ '' @'' @ display\<rparr>) w1;
          w3 = modify (data l)
                 (\<lambda>g. g\<lparr>Size := UDim2 1 0 0 14, Text := ''[85] [100/100] [100%]''\<rparr>) w2;
          w4 = modify (name l) (\<lambda>g. g\<lparr>Parent := Some (Child (container l))\<rparr>) w3;
          w5 = modify (data l) (\<lambda>g. g\<lparr>Parent := Some (Child (container l))\<rparr>) w4;
          w6 = modify (container l) (\<lambda>g. g\<lparr>Parent := Some ScreenGui\<rparr>) w5
      in (Bin_add (instance_item (container l)) b, w6))"

definition setVisible :: "ESP \<Rightarrow> bool \<Rightarrow> world \<Rightarrow> world" where
  "setVisible esp visible w =
     (let w1 = modify (container (labels esp)) (\<lambda>g. g\<lparr>Visible := visible\<rparr>) w;
          w2 = fold (\<lambda>line. modify line (\<lambda>g. g\<lparr>Visible := visible\<rparr>)) (box_lines esp) w1
      in fold (\<lambda>line. modify line (\<lambda>g. g\<lparr>Visible := visible\<rparr>)) (bone_lines esp) w2)"

text \<open>
  \<open>update\<close>; \<open>content_y\<close> is the host's \<open>listlayout.AbsoluteContentSize.Y\<close> at the
  time of the call.
\<close>

definition update :: "real \<Rightarrow> ESP \<Rightarrow> world \<Rightarrow> world" where
  "update content_y esp w =
     (let w1 = fold (\<lambda>line. modify line (\<lambda>g. g\<lparr>Size := UDim2 0 1 0 2\<rparr>)) (box_lines esp) w;
          w2 = fold (\<lambda>line. modify line (\<lambda>g. g\<lparr>Size := UDim2 0 1 0 1\<rparr>)) (bone_lines esp) w1
      in modify (container (labels esp)) (\<lambda>g. g\<lparr>Size := UDim2 0 300 0 content_y\<rparr>) w2)"

text \<open>
  \<open>new ESP(entity)\<close>. The field initialisers run first (the Bin and the three label
  instances), then the body of the constructor. The result is \<open>None\<close> when a
  \<open>WaitForChild\<close> does not return.
\<close>

definition ESP_new :: "real \<Rightarrow> Model \<Rightarrow> state \<Rightarrow> state option" where
  "ESP_new content_y m s = do {
     display \<leftarrow> Humanoid m;
     pts \<leftarrow> constructPoints m;
     bns \<leftarrow> constructBones m;
     let (c, w1) = new_Instance Instance_new (world s);
         (n, w2) = new_Instance Instance_new w1;
         (d, w3) = new_Instance Instance_new w2;
         l = \<lparr>container = c, name = n, data = d\<rparr>;
         (box, bone, b1, w4) = constructLines Bin_new w3;
         (b2, w5) = setLabels l m display b1 w4;
         this = length (esps s);
         w6 = w5\<lparr>instances := (instances w5)(ref m \<mapsto> this)\<rparr>;
         b3 = Bin_add (Function (instances_delete (ref m))) b2;
         w7 = w6\<lparr>connections := connections w6 @
                 [\<lparr>signal = ref m, listener = this, Connected = True\<rparr>]\<rparr>;
         esp = \<lparr>bin = b3, entity = m, humanoid = display, points = pts, bones = bns,
                box_lines = box, bone_lines = bone, labels = l\<rparr>
     in Some (s\<lparr>world := update content_y esp w7, esps := esps s @ [esp]\<rparr>)
   }"

definition ESP_destroy :: "nat \<Rightarrow> state \<Rightarrow> (state \<times> error option) option" where
  "ESP_destroy i s =
     (case Bin_destroy (bin (esps s ! i)) (world s) of
        None \<Rightarrow> None
      | Some (b', w', e) \<Rightarrow>
          Some (s\<lparr>world := w', esps := (esps s)[i := (esps s ! i)\<lparr>bin := b'\<rparr>]\<rparr>, e))"

subsection \<open>Rendering\<close>

text \<open>
  Points of space. A \<open>CFrame\<close> is a position and three axes, and
  \<open>PointToWorldSpace\<close> (the product of a \<open>CFrame\<close> and a \<open>Vector3\<close>) carries a point given
  relative to it into the world.
\<close>

definition vadd :: "Vector3 \<Rightarrow> Vector3 \<Rightarrow> Vector3" where
  "vadd a b = Vector3 (X a + X b) (Y a + Y b) (Z a + Z b)"

definition vsub :: "Vector3 \<Rightarrow> Vector3 \<Rightarrow> Vector3" where
  "vsub a b = Vector3 (X a - X b) (Y a - Y b) (Z a - Z b)"

definition vscale :: "real \<Rightarrow> Vector3 \<Rightarrow> Vector3" where
  "vscale k a = Vector3 (k * X a) (k * Y a) (k * Z a)"

definition Dot :: "Vector3 \<Rightarrow> Vector3 \<Rightarrow> real" where
  "Dot a b = X a * X b + Y a * Y b + Z a * Z b"

record CFrame =
  place :: Vector3
  XVector :: Vector3
  YVector :: Vector3
  ZVector :: Vector3

definition PointToWorldSpace :: "CFrame \<Rightarrow> Vector3 \<Rightarrow> Vector3" where
  "PointToWorldSpace cf v =
     vadd (place cf) (vadd (vscale (X v) (XVector cf)) (vadd (vscale (Y v) (YVector cf))
       (vscale (Z v) (ZVector cf))))"

text \<open>
  What the host reports to one call of \<open>render\<close>: the \<open>CFrame\<close> of each part of the
  entity by name, the humanoid's \<open>Health\<close> and \<open>MaxHealth\<close>, the
  \<open>AbsoluteContentSize.Y\<close> of the list layout, and how it prints a number (\<open>None\<close> is
  a number that is not finite).
\<close>

record readings =
  part_CFrame :: "string \<Rightarrow> CFrame"
  Health :: real
  MaxHealth :: real
  content_Y :: real
  tostring :: "real option \<Rightarrow> string"

text \<open>
  \<open>attachment.WorldPosition\<close>: the host works it out from the part the attachment
  hangs from, as the transform of that part applied to the attachment's place
  relative to it, which for a box point is the sum of the offsets along its chain of
  parents. (An attachment that hangs from no part is where its own offset says; the
  constructor builds none.)
\<close>

definition point_WorldPosition :: "readings \<Rightarrow> (point \<Rightarrow> Attachment) \<Rightarrow> point \<Rightarrow> Vector3" where
  "point_WorldPosition r pts p =
     (case chain 3 pts p of
        Some (part, v) \<Rightarrow> PointToWorldSpace (part_CFrame r part) v
      | None \<Rightarrow> offset (pts p))"

definition bone_WorldPosition :: "readings \<Rightarrow> (bone \<Rightarrow> Attachment) \<Rightarrow> bone \<Rightarrow> Vector3" where
  "bone_WorldPosition r bns j =
     (case attached (bns j) of
        Some (OnPart part) \<Rightarrow> PointToWorldSpace (part_CFrame r part) (offset (bns j))
      | _ \<Rightarrow> offset (bns j))"

text \<open>
  A camera: where it is, the direction it looks in, and where on the viewport it puts
  a point of the world. \<open>WorldToViewportPoint\<close> gives that place on the viewport and,
  as third coordinate, the depth of the point: how far in front of the camera it is,
  along the direction of view. \<open>CurrentCamera\<close> is \<open>None\<close> when the workspace has no
  camera.
\<close>

record camera =
  eye :: Vector3
  LookVector :: Vector3
  viewport :: "Vector3 \<Rightarrow> Vector2"

definition WorldToViewportPoint :: "camera \<Rightarrow> Vector3 \<Rightarrow> Vector3" where
  "WorldToViewportPoint cam v =
     Vector3 (X2 (viewport cam v)) (Y2 (viewport cam v)) (Dot (LookVector cam) (vsub v (eye cam)))"

definition xy :: "Vector3 \<Rightarrow> Vector2" where
  "xy v = Vector2 (X v) (Y v)"

definition math_floor :: "real \<Rightarrow> real" where
  "math_floor x = of_int \<lfloor>x\<rfloor>"

definition data_text :: "(real option \<Rightarrow> string) \<Rightarrow> real \<Rightarrow> real \<Rightarrow> real \<Rightarrow> string" where
  "data_text str depth health maxHealth =
     ''['' @ str (Some (math_floor depth)) @ ''] ['' @ str (Some health) @ ''/'' @
     str (Some maxHealth) @ ''] ['' @
     str (if maxHealth = 0 then None else Some (math_floor (health / maxHealth * 100))) @ ''%]''"

text \<open>The points and joints \<open>render\<close> projects, in the order it projects them.\<close>

definition projected_points :: "point list" where
  "projected_points = [C, T, BL, BR, TL, TR]"

definition projected_bones :: "bone list" where
  "projected_bones = [face, neck, waist, right_shoulder, right_hand, right_hip, right_foot,
     left_shoulder, left_hand, left_hip, left_foot]"

definition box_edges :: "(point \<times> point) list" where
  "box_edges = [(TL, TR), (TR, BR), (BR, BL), (BL, TL)]"

definition bone_edges :: "(bone \<times> bone) list" where
  "bone_edges = [(face, neck), (neck, waist), (neck, right_shoulder),
     (right_shoulder, right_hand), (waist, right_hip), (right_hip, right_foot),
     (neck, left_shoulder), (left_shoulder, left_hand), (waist, left_hip),
     (left_hip, left_foot)]"

text \<open>
  \<open>updateLineFromPoints(lines[k], ...)\<close> for the \<open>k\<close>-th edge, for each edge in turn. The
  arrays of an overlay have a line for every edge (4 and 10, see \<open>Inv\<close> below).
\<close>

definition update_lines :: "nat list \<Rightarrow> ('a \<Rightarrow> Vector3) \<Rightarrow> ('a \<times> 'a) list \<Rightarrow> world \<Rightarrow> world" where
  "update_lines lines proj edges w =
     fold (\<lambda>(k, (p, q)). modify (lines ! k) (\<lambda>g. updateLineFromPoints g (xy (proj p)) (xy (proj q))))
       (zip [0 ..< length edges] edges) w"

definition render :: "camera option \<Rightarrow> readings \<Rightarrow> ESP \<Rightarrow> action" where
  "render CurrentCamera r esp w =
     (case CurrentCamera of
        None \<Rightarrow> (w, Some (Error ''attempt to index nil''))
      | Some cam \<Rightarrow>
          (let P = (\<lambda>p. WorldToViewportPoint cam (point_WorldPosition r (points esp) p));
               J = (\<lambda>j. WorldToViewportPoint cam (bone_WorldPosition r (bones esp) j))
           in if list_ex (\<lambda>p. Z (P p) < 0) projected_points
                 \<or> list_ex (\<lambda>j. Z (J j) < 0) projected_bones
              then (setVisible esp False w, None)
              else
                (let w1 = update_lines (box_lines esp) P box_edges w;
                     w2 = update_lines (bone_lines esp) J bone_edges w1;
                     w3 = modify (container (labels esp))
                            (\<lambda>g. g\<lparr>Position := UDim2 0 (X (P T)) 0 (Y (P T) - content_Y r)\<rparr>) w2;
                     w4 = modify (data (labels esp))
                            (\<lambda>g. g\<lparr>Text := data_text (tostring r) (Z (P C)) (Health r) (MaxHealth r)\<rparr>) w3
                 in (setVisible esp True w4, None))))"

subsection \<open>Event listeners\<close>

text \<open>
  The \<open>RenderStepped\<close> handler: \<open>render\<close> on each overlay of the registry, one after the
  other; nothing catches a raise. \<open>order\<close> is the order in which the iteration visits
  the keys of the registry, \<open>rd i\<close> what the host reports to overlay \<open>i\<close>. The first
  component of the result lists the overlays on which \<open>render\<close> was called.
\<close>

fun render_each ::
  "camera option \<Rightarrow> (nat \<Rightarrow> readings) \<Rightarrow> ESP list \<Rightarrow> nat list \<Rightarrow> world \<Rightarrow> nat list \<times> world \<times> error option" where
  "render_each cam rd es [] w = ([], w, None)"
| "render_each cam rd es (i # is) w =
     (case render cam (rd i) (es ! i) w of
        (w', Some e) \<Rightarrow> ([i], w', Some e)
      | (w', None) \<Rightarrow>
          (case render_each cam rd es is w' of (called, w'', r) \<Rightarrow> (i # called, w'', r)))"

definition RenderStepped ::
  "camera option \<Rightarrow> (nat \<Rightarrow> readings) \<Rightarrow> nat list \<Rightarrow> state \<Rightarrow> nat list \<times> state \<times> error option" where
  "RenderStepped cam rd order s =
     (case render_each cam rd (esps s) (List.map_filter (instances (world s)) order) (world s) of
        (called, w', r) \<Rightarrow> (called, s\<lparr>world := w'\<rparr>, r))"

text \<open>
  \<open>entity.AncestryChanged\<close> fires: the host runs every handler connected to it, each
  handler \<open>(_, parent) => parent === undefined && this.destroy()\<close> on its own, so that
  a raise in one does not stop the others.
\<close>

definition handlers :: "nat \<Rightarrow> world \<Rightarrow> nat list" where
  "handlers e w = map listener (filter (\<lambda>c. signal c = e \<and> Connected c) (connections w))"

fun destroy_each :: "nat list \<Rightarrow> state \<Rightarrow> state option" where
  "destroy_each [] s = Some s"
| "destroy_each (i # is) s =
     (case ESP_destroy i s of None \<Rightarrow> None | Some (s', _) \<Rightarrow> destroy_each is s')"

definition AncestryChanged :: "nat \<Rightarrow> bool \<Rightarrow> state \<Rightarrow> state option" where
  "AncestryChanged e parent_undefined s =
     (if parent_undefined then destroy_each (handlers e (world s)) s else Some s)"

text \<open>
  The states the program reaches, each with the tracked entities \<open>P\<close> that are in
  the world and the entities \<open>Q\<close> whose constructor is waiting. The tracked entities
  are the characters of the other players: when one enters the world, \<open>new ESP\<close> is
  called for it (\<open>entered\<close>); the constructor then waits in
  \<open>WaitForChild\<close>, and what it does to the registry, to the connections and to the GUI
  it does after its last wait, when it returns (\<open>returned\<close>), which may be after the
  entity has left the world. An entity leaves the world (\<open>left\<close>) or is moved within
  it (\<open>moved\<close>): its \<open>AncestryChanged\<close> fires. A frame is rendered (\<open>frame\<close>).
\<close>

definition start :: state where
  "start = \<lparr>world = \<lparr>instances = Map.empty, gui = [], connections = [], cancelled = []\<rparr>,
     esps = []\<rparr>"

inductive reachable :: "state \<Rightarrow> nat set \<Rightarrow> Model list \<Rightarrow> bool" where
  init: "reachable start {} []"
| entered: "reachable s P Q \<Longrightarrow> reachable s (insert (ref m) P) (Q @ [m])"
| returned: "reachable s P Q \<Longrightarrow> m \<in> set Q \<Longrightarrow> ESP_new content_y m s = Some s' \<Longrightarrow>
     reachable s' P (remove1 m Q)"
| left: "reachable s P Q \<Longrightarrow> AncestryChanged e True s = Some s' \<Longrightarrow> reachable s' (P - {e}) Q"
| moved: "reachable s P Q \<Longrightarrow> AncestryChanged e False s = Some s' \<Longrightarrow> reachable s' P Q"
| frame: "reachable s P Q \<Longrightarrow> RenderStepped cam rd order s = (called, s', r) \<Longrightarrow> reachable s' P Q"

text \<open>The items an overlay puts in its Bin, in the order it adds them.\<close>

definition overlay_items :: "ESP \<Rightarrow> Item list" where
  "overlay_items esp =
     map instance_item (box_lines esp @ bone_lines esp @ [container (labels esp)]) @
     [Function (instances_delete (ref (entity esp)))]"

section \<open>Invariants\<close>

text \<open>
  The GUI instances an overlay owns: its lines and the container of its label.
\<close>

definition lines_of :: "ESP \<Rightarrow> nat list" where
  "lines_of esp = box_lines esp @ bone_lines esp @ [container (labels esp)]"

text \<open>
  The Bin of every overlay is a well-formed list, either empty (the overlay has been
  destroyed) or holding exactly the items the constructor added.
\<close>

definition bins_ok :: "state \<Rightarrow> bool" where
  "bins_ok s \<longleftrightarrow>
     (\<forall>i < length (esps s). \<exists>as. bin_inv (bin (esps s ! i)) as \<and>
        (as = [] \<or> items_of (bin (esps s ! i)) as = overlay_items (esps s ! i)))"

text \<open>Two states with the same overlays, but for their Bins.\<close>

definition same_overlays :: "state \<Rightarrow> state \<Rightarrow> bool" where
  "same_overlays s s' \<longleftrightarrow>
     length (esps s') = length (esps s) \<and>
     (\<forall>j < length (esps s).
        entity (esps s' ! j) = entity (esps s ! j) \<and>
        box_lines (esps s' ! j) = box_lines (esps s ! j) \<and>
        bone_lines (esps s' ! j) = bone_lines (esps s ! j) \<and>
        labels (esps s' ! j) = labels (esps s ! j) \<and>
        points (esps s' ! j) = points (esps s ! j) \<and>
        bones (esps s' ! j) = bones (esps s ! j))"

text \<open>
  What holds in every reachable state: an entry of the registry refers to an overlay
  of that entity that has not been destroyed; every overlay has its 4 and 10 lines
  among the GUI instances, has the rig that \<open>constructPoints\<close> and \<open>constructBones\<close>
  build for its entity, and still has its handler connected to its entity's signal;
  and every connection is the handler of an overlay.
\<close>

definition Inv :: "state \<Rightarrow> bool" where
  "Inv s \<longleftrightarrow>
     bins_ok s \<and>
     (\<forall>e i. instances (world s) e = Some i \<longrightarrow>
        i < length (esps s) \<and> ref (entity (esps s ! i)) = e \<and> \<not> isEmpty (bin (esps s ! i))) \<and>
     (\<forall>i < length (esps s).
        length (box_lines (esps s ! i)) = 4 \<and> length (bone_lines (esps s ! i)) = 10 \<and>
        (\<forall>g \<in> set (lines_of (esps s ! i)). g < length (gui (world s))) \<and>
        constructPoints (entity (esps s ! i)) = Some (points (esps s ! i)) \<and>
        constructBones (entity (esps s ! i)) = Some (bones (esps s ! i)) \<and>
        \<lparr>signal = ref (entity (esps s ! i)), listener = i, Connected = True\<rparr>
          \<in> set (connections (world s))) \<and>
     (\<forall>c \<in> set (connections (world s)).
        listener c < length (esps s) \<and> signal c = ref (entity (esps s ! listener c)))"

section \<open>Example inputs\<close>

text \<open>A rig with the parts of an R6 character, as entity \<open>k\<close>.\<close>

definition r6 :: "nat \<Rightarrow> Model" where
  "r6 k = \<lparr>ref = k, Name = ''Dummy'',
     Parts = [''Head'' \<mapsto> Vector3 2 1 1, ''Torso'' \<mapsto> Vector3 2 2 1,
              ''HumanoidRootPart'' \<mapsto> Vector3 2 2 1,
              ''Right Arm'' \<mapsto> Vector3 1 2 1, ''Left Arm'' \<mapsto> Vector3 1 2 1,
              ''Right Leg'' \<mapsto> Vector3 1 2 1, ''Left Leg'' \<mapsto> Vector3 1 2 1],
     Humanoid = Some ''Dummy''\<rparr>"

text \<open>A rig whose left arm is twice as long as its right arm.\<close>

definition uneven :: Model where
  "uneven = \<lparr>ref = 0, Name = ''Uneven'',
     Parts = [''Head'' \<mapsto> Vector3 2 1 1, ''Torso'' \<mapsto> Vector3 2 2 1,
              ''Right Arm'' \<mapsto> Vector3 1 2 1, ''Left Arm'' \<mapsto> Vector3 1 4 1,
              ''Right Leg'' \<mapsto> Vector3 1 2 1, ''Left Leg'' \<mapsto> Vector3 1 2 1],
     Humanoid = Some ''Uneven''\<rparr>"

text \<open>
  A callback that raises; a callback that cancels thread \<open>7\<close> and raises, unless
  thread \<open>7\<close> has been cancelled before; and a world with nothing in it.
\<close>

definition failing :: action where
  "failing w = (w, Some (Error ''release failed''))"

definition fails_once :: action where
  "fails_once w =
     (task_cancel 7 w, if 7 \<in> set (cancelled w) then None else Some (Error ''release failed''))"

definition nothing :: world where
  "nothing = \<lparr>instances = Map.empty, gui = [], connections = [], cancelled = []\<rparr>"

text \<open>
  A Bin with that second callback and a thread, and what a \<open>destroy\<close> in the empty
  world leaves of it.
\<close>

definition loaded :: Bin where
  "loaded = fold Bin_add [Function fails_once, Thread 2] Bin_new"

definition half_destroyed :: Bin where
  "half_destroyed = fst (the (Bin_destroy loaded nothing))"

text \<open>
  States after \<open>new ESP\<close> for one entity, for the same entity twice, and for two
  entities; and the first of them after \<open>destroy\<close> on its overlay.
\<close>

definition one_overlay :: state where
  "one_overlay = the (ESP_new 24 (r6 1) start)"

definition two_overlays :: state where
  "two_overlays = the (ESP_new 24 (r6 1) one_overlay)"


definition after_destroy :: state where
  "after_destroy = fst (the (ESP_destroy 0 one_overlay))"






section \<open>Line geometry\<close>

lemma arctan_partial_sums:
  fixes x :: real
  assumes "0 \<le> x" "x \<le> 1"
  shows "(\<Sum>i<2*n. (-1)^i * (1 / real (i * 2 + 1) * x ^ (i * 2 + 1))) \<le> arctan x"
    and "arctan x \<le> (\<Sum>i<2*n+1. (-1)^i * (1 / real (i * 2 + 1) * x ^ (i * 2 + 1)))"
proof -
  let ?a = "\<lambda>i. 1 / real (i * 2 + 1) * x ^ (i * 2 + 1)"
  from assms have ax: "\<bar>x\<bar> \<le> 1" by simp
  have zero: "?a \<longlonglongrightarrow> 0" using ax by (rule zeroseq_arctan_series)
  have pos: "\<And>i. 0 \<le> ?a i" using assms by simp
  have mono: "?a (Suc i) \<le> ?a i" for i
  proof -
    have "x ^ (Suc i * 2 + 1) = x ^ (i * 2 + 1) * x\<^sup>2" by (simp add: power2_eq_square)
    also have "\<dots> \<le> x ^ (i * 2 + 1) * 1"
      using assms by (intro mult_left_mono) (simp_all add: power_le_one)
    finally have p: "x ^ (Suc i * 2 + 1) \<le> x ^ (i * 2 + 1)" by simp
    have q: "1 / real (Suc i * 2 + 1) \<le> 1 / real (i * 2 + 1)" by (simp add: field_simps)
    show ?thesis
      using p q assms by (intro mult_mono) simp_all
  qed
  have series: "arctan x = (\<Sum>k. (-1)^k * ?a k)" using ax by (rule arctan_series)
  show "(\<Sum>i<2*n. (-1)^i * ?a i) \<le> arctan x"
    unfolding series by (rule summable_Leibniz'(2) [OF zero pos mono])
  show "arctan x \<le> (\<Sum>i<2*n+1. (-1)^i * ?a i)"
    unfolding series by (rule summable_Leibniz'(4) [OF zero pos mono])
qed

lemma arctan_half_bounds:
  "463630 / 1000000 \<le> arctan (1/2::real)" "arctan (1/2::real) \<le> 463650 / 1000000"
proof -
  have "463630 / 1000000 \<le> (\<Sum>i<2*3. (-1)^i * (1 / real (i * 2 + 1) * (1/2::real) ^ (i * 2 + 1)))"
    by (simp add: eval_nat_numeral)
  also have "\<dots> \<le> arctan (1/2)" by (rule arctan_partial_sums(1)) simp_all
  finally show "463630 / 1000000 \<le> arctan (1/2::real)" .
  have "arctan (1/2::real) \<le> (\<Sum>i<2*3+1. (-1)^i * (1 / real (i * 2 + 1) * (1/2::real) ^ (i * 2 + 1)))"
    by (rule arctan_partial_sums(2)) simp_all
  also have "\<dots> \<le> 463650 / 1000000" by (simp add: eval_nat_numeral)
  finally show "arctan (1/2::real) \<le> 463650 / 1000000" .
qed

lemma arctan_fifth_bounds:
  "197395 / 1000000 \<le> arctan (1/5::real)" "arctan (1/5::real) \<le> 197396 / 1000000"
proof -
  have "197395 / 1000000 \<le> (\<Sum>i<2*2. (-1)^i * (1 / real (i * 2 + 1) * (1/5::real) ^ (i * 2 + 1)))"
    by (simp add: eval_nat_numeral)
  also have "\<dots> \<le> arctan (1/5)" by (rule arctan_partial_sums(1)) simp_all
  finally show "197395 / 1000000 \<le> arctan (1/5::real)" .
  have "arctan (1/5::real) \<le> (\<Sum>i<2*2+1. (-1)^i * (1 / real (i * 2 + 1) * (1/5::real) ^ (i * 2 + 1)))"
    by (rule arctan_partial_sums(2)) simp_all
  also have "\<dots> \<le> 197396 / 1000000" by (simp add: eval_nat_numeral)
  finally show "arctan (1/5::real) \<le> 197396 / 1000000" .
qed

lemma arctan_239_bounds:
  "4184 / 1000000 \<le> arctan (1/239::real)" "arctan (1/239::real) \<le> 4185 / 1000000"
proof -
  have "4184 / 1000000 \<le> (\<Sum>i<2*1. (-1)^i * (1 / real (i * 2 + 1) * (1/239::real) ^ (i * 2 + 1)))"
    by (simp add: eval_nat_numeral)
  also have "\<dots> \<le> arctan (1/239)" by (rule arctan_partial_sums(1)) simp_all
  finally show "4184 / 1000000 \<le> arctan (1/239::real)" .
  have "arctan (1/239::real) \<le> (\<Sum>i<2*0+1. (-1)^i * (1 / real (i * 2 + 1) * (1/239::real) ^ (i * 2 + 1)))"
    by (rule arctan_partial_sums(2)) simp_all
  also have "\<dots> \<le> 4185 / 1000000" by (simp add: eval_nat_numeral)
  finally show "arctan (1/239::real) \<le> 4185 / 1000000" .
qed

lemma pi_bounds: "3.14158 \<le> pi" "pi \<le> 3.14160"
proof -
  have m: "pi = 16 * arctan (1/5) - 4 * arctan (1/239)" using machin by simp
  show "3.14158 \<le> pi" unfolding m using arctan_fifth_bounds(1) arctan_239_bounds(2) by simp
  show "pi \<le> 3.14160" unfolding m using arctan_fifth_bounds(2) arctan_239_bounds(1) by simp
qed

lemma arctan_4_3: "arctan (4/3::real) = 2 * arctan (1/2)"
  using arctan_double [of "1/2"] by (simp add: power2_eq_square)

lemma near_53_13: "53.125 < (t::real) \<Longrightarrow> t < 53.135 \<Longrightarrow> \<bar>t - 53.13\<bar> < 0.005"
  by (cases "53.13 \<le> t") (simp_all add: abs_if)

lemma deg_atan2_4_3: "\<bar>math_deg (math_atan2 4 3) - 53.13\<bar> < 0.005"
proof -
  have a: "math_atan2 4 3 = 2 * arctan (1/2)" by (simp add: math_atan2_def arctan_4_3)
  have lo: "53.125 * pi < 360 * arctan (1/2)"
    using pi_bounds(2) arctan_half_bounds(1) by simp
  have hi: "360 * arctan (1/2) < 53.135 * pi"
    using pi_bounds(1) arctan_half_bounds(2) by simp
  have d: "math_deg (math_atan2 4 3) = 360 * arctan (1/2) / pi" by (simp add: math_deg_def a)
  have "53.125 < 360 * arctan (1/2) / pi" using lo pi_gt_zero by (simp add: pos_less_divide_eq)
  moreover have "360 * arctan (1/2) / pi < 53.135" using hi pi_gt_zero by (simp add: pos_divide_less_eq)
  ultimately show ?thesis unfolding d by (rule near_53_13)
qed

lemma sqrt_ratio:
  fixes x y :: real
  assumes "x \<noteq> 0"
  shows "sqrt (1 + (y / x)\<^sup>2) = sqrt (x\<^sup>2 + y\<^sup>2) / \<bar>x\<bar>"
proof -
  have "1 + (y / x)\<^sup>2 = (x\<^sup>2 + y\<^sup>2) / x\<^sup>2"
    using assms by (simp add: field_simps power2_eq_square)
  then show ?thesis by (simp add: real_sqrt_divide)
qed

text \<open>
  \<open>math_atan2\<close> is the angle of the displacement: the unit vector of that angle, scaled
  by the length of the displacement, is the displacement.
\<close>

lemma atan2_direction:
  fixes x y :: real
  assumes "x \<noteq> 0 \<or> y \<noteq> 0"
  shows "sqrt (x\<^sup>2 + y\<^sup>2) * cos (math_atan2 y x) = x"
    and "sqrt (x\<^sup>2 + y\<^sup>2) * sin (math_atan2 y x) = y"
proof -
  let ?r = "sqrt (x\<^sup>2 + y\<^sup>2)"
  have rpos: "0 < ?r" using assms by (auto simp: sum_power2_gt_zero_iff)
  consider (pos) "0 < x" | (neg) "x < 0" | (up) "x = 0" "0 < y" | (down) "x = 0" "y < 0"
    using assms by force
  then have "?r * cos (math_atan2 y x) = x \<and> ?r * sin (math_atan2 y x) = y"
  proof cases
    case pos
    then have "sqrt (1 + (y / x)\<^sup>2) = ?r / x" using sqrt_ratio [of x y] by simp
    with pos rpos show ?thesis
      by (simp add: math_atan2_def cos_arctan sin_arctan)
  next
    case neg
    then have "sqrt (1 + (y / x)\<^sup>2) = ?r / (- x)" using sqrt_ratio [of x y] by simp
    with neg rpos show ?thesis
      by (simp add: math_atan2_def cos_arctan sin_arctan field_simps)
  next
    case up
    then show ?thesis by (simp add: math_atan2_def)
  next
    case down
    then show ?thesis by (simp add: math_atan2_def)
  qed
  then show "?r * cos (math_atan2 y x) = x" and "?r * sin (math_atan2 y x) = y" by simp_all
qed

text \<open>
  So the line that \<open>updateLineFromPoints\<close> lays out ends at the two points it is given:
  half its length from its centre, along its rotation, lies \<open>p1\<close>.
\<close>

lemma line_reaches_p1:
  assumes "p0 \<noteq> p1"
    and "l = updateLineFromPoints line p0 p1"
    and "a = Rotation l * pi / 180"
  shows "XOffset (Position l) + XOffset (Size l) / 2 * cos a = X2 p1"
    and "YOffset (Position l) + XOffset (Size l) / 2 * sin a = Y2 p1"
proof -
  let ?x = "X2 p1 - X2 p0" and ?y = "Y2 p1 - Y2 p0"
  from assms(1) have ne: "?x \<noteq> 0 \<or> ?y \<noteq> 0"
    by (cases p0; cases p1) auto
  have a: "a = math_atan2 ?y ?x"
    by (simp add: assms(2,3) updateLineFromPoints_def Let_def sub_def math_deg_def)
  have len: "XOffset (Size l) = sqrt (?x\<^sup>2 + ?y\<^sup>2)"
    by (simp add: assms(2) updateLineFromPoints_def Let_def sub_def Magnitude_def)
  have pos: "XOffset (Position l) = X2 p0 + ?x / 2" "YOffset (Position l) = Y2 p0 + ?y / 2"
    by (simp_all add: assms(2) updateLineFromPoints_def Let_def sub_def add_def div_scalar_def)
  show "XOffset (Position l) + XOffset (Size l) / 2 * cos a = X2 p1"
    using atan2_direction(1) [OF ne] by (simp add: a len pos)
  show "YOffset (Position l) + XOffset (Size l) / 2 * sin a = Y2 p1"
    using atan2_direction(2) [OF ne] by (simp add: a len pos)
qed

text \<open>
  Claim C2. For every pair of screen points \<open>p0\<close> and \<open>p1\<close>, \<open>updateLineFromPoints\<close> puts
  the line at the midpoint \<open>p0 + (p1 - p0) / 2\<close>, which is the arithmetic mean of the
  two points, gives it the Euclidean distance between them as its length (keeping its
  thickness), and rotates it by \<open>atan2 (p1.y - p0.y) (p1.x - p0.x)\<close> in degrees. For
  \<open>p0 = (0, 0)\<close> and \<open>p1 = (3, 4)\<close> the midpoint is \<open>(1.5, 2)\<close>, the length \<open>5\<close> and the
  angle within \<open>0.005\<close> of \<open>53.13\<close> degrees.
\<close>

theorem updateLineFromPoints_geometry:
  "Position (updateLineFromPoints line p0 p1) =
     UDim2 0 (X2 p0 + (X2 p1 - X2 p0) / 2) 0 (Y2 p0 + (Y2 p1 - Y2 p0) / 2) \<and>
   Position (updateLineFromPoints line p0 p1) =
     UDim2 0 ((X2 p0 + X2 p1) / 2) 0 ((Y2 p0 + Y2 p1) / 2) \<and>
   Size (updateLineFromPoints line p0 p1) =
     UDim2 0 (sqrt ((X2 p1 - X2 p0)\<^sup>2 + (Y2 p1 - Y2 p0)\<^sup>2)) 0 (YOffset (Size line)) \<and>
   Rotation (updateLineFromPoints line p0 p1) =
     math_deg (math_atan2 (Y2 p1 - Y2 p0) (X2 p1 - X2 p0)) \<and>
   Position (updateLineFromPoints line (Vector2 0 0) (Vector2 3 4)) = UDim2 0 1.5 0 2 \<and>
   XOffset (Size (updateLineFromPoints line (Vector2 0 0) (Vector2 3 4))) = 5 \<and>
   \<bar>Rotation (updateLineFromPoints line (Vector2 0 0) (Vector2 3 4)) - 53.13\<bar> < 0.005"
proof -
  have five: "sqrt (3\<^sup>2 + 4\<^sup>2) = (5::real)"
    by (rule real_sqrt_unique) simp_all
  have general:
    "Position (updateLineFromPoints line p0 p1) =
       UDim2 0 (X2 p0 + (X2 p1 - X2 p0) / 2) 0 (Y2 p0 + (Y2 p1 - Y2 p0) / 2)"
    "Position (updateLineFromPoints line p0 p1) =
       UDim2 0 ((X2 p0 + X2 p1) / 2) 0 ((Y2 p0 + Y2 p1) / 2)"
    "Size (updateLineFromPoints line p0 p1) =
       UDim2 0 (sqrt ((X2 p1 - X2 p0)\<^sup>2 + (Y2 p1 - Y2 p0)\<^sup>2)) 0 (YOffset (Size line))"
    "Rotation (updateLineFromPoints line p0 p1) =
       math_deg (math_atan2 (Y2 p1 - Y2 p0) (X2 p1 - X2 p0))"
    by (simp_all add: updateLineFromPoints_def Let_def sub_def add_def div_scalar_def
          Magnitude_def field_simps)
  have example:
    "Position (updateLineFromPoints line (Vector2 0 0) (Vector2 3 4)) = UDim2 0 1.5 0 2"
    "XOffset (Size (updateLineFromPoints line (Vector2 0 0) (Vector2 3 4))) = 5"
    using five
    by (simp_all add: updateLineFromPoints_def Let_def sub_def add_def div_scalar_def Magnitude_def)
  have angle: "\<bar>Rotation (updateLineFromPoints line (Vector2 0 0) (Vector2 3 4)) - 53.13\<bar> < 0.005"
    using deg_atan2_4_3 by (simp add: updateLineFromPoints_def Let_def sub_def)
  from general example angle show ?thesis by blast
qed

section \<open>The Bin as a list\<close>

lemma release_all_length: "release_all xs w = (rest, w', e) \<Longrightarrow> length rest \<le> length xs"
  by (induction xs arbitrary: w) (fastforce split: prod.splits option.splits)+

lemma release_all_drop:
  "release_all xs w = (rest, w', e) \<Longrightarrow> rest = drop (length xs - length rest) xs"
proof (induction xs arbitrary: w)
  case Nil
  then show ?case by simp
next
  case (Cons x xs)
  obtain w1 e1 where r: "release x w = (w1, e1)" by (cases "release x w")
  show ?case
  proof (cases e1)
    case None
    with Cons.prems r have ra: "release_all xs w1 = (rest, w', e)" by simp
    from release_all_length [OF ra] have "length rest \<le> length xs" .
    then have "length (x # xs) - length rest = Suc (length xs - length rest)" by simp
    with Cons.IH [OF ra] show ?thesis by simp
  next
    case (Some err)
    with Cons.prems r show ?thesis by auto
  qed
qed

lemma release_all_error: "release_all xs w = (rest, w', e) \<Longrightarrow> (e = None \<longleftrightarrow> rest = [])"
  by (induction xs arbitrary: w) (auto split: prod.splits option.splits)

lemma destroy_loop_seg:
  "list_seg (nodes b) cur as \<Longrightarrow> head b = cur \<Longrightarrow>
   destroy_loop cur b w =
     (case release_all (items_of b as) w of
        (rest, w', e) \<Rightarrow> Some (b\<lparr>head := hd_opt (drop (length as - length rest) as)\<rparr>, w', e))"
proof (induction as arbitrary: cur b w)
  case Nil
  then show ?case by (simp add: destroy_loop.simps items_of_def)
next
  case (Cons a as)
  from Cons.prems have cur: "cur = Some a" and seg: "list_seg (nodes b) (nxt (nodes b ! a)) as"
    by simp_all
  obtain w1 e1 where r: "release (item (nodes b ! a)) w = (w1, e1)"
    by (cases "release (item (nodes b ! a)) w")
  show ?case
  proof (cases e1)
    case (Some err)
    with cur r Cons.prems(2) show ?thesis
      by (subst destroy_loop.simps) (simp add: items_of_def)
  next
    case None
    let ?b = "b\<lparr>head := nxt (nodes b ! a)\<rparr>"
    have seg': "list_seg (nodes ?b) (nxt (nodes b ! a)) as" using seg by simp
    have it: "items_of ?b as = items_of b as" by (simp add: items_of_def)
    obtain rest w' e where ra: "release_all (items_of b as) w1 = (rest, w', e)"
      by (cases "release_all (items_of b as) w1") auto
    from release_all_length [OF ra] have len: "length rest \<le> length as"
      by (simp add: items_of_def)
    then have d: "length (a # as) - length rest = Suc (length as - length rest)" by simp
    have "destroy_loop cur b w = destroy_loop (nxt (nodes b ! a)) ?b w1"
      using cur r None by (subst destroy_loop.simps) simp
    also have "\<dots> = Some (?b\<lparr>head := hd_opt (drop (length as - length rest) as)\<rparr>, w', e)"
      using Cons.IH [OF seg', of w1] ra it by simp
    finally show ?thesis
      using r None ra d by (simp add: items_of_def)
  qed
qed

lemma list_seg_bound: "list_seg ns p as \<Longrightarrow> a \<in> set as \<Longrightarrow> a < length ns"
  by (induction as arbitrary: p) auto

lemma list_seg_head: "list_seg ns p as \<Longrightarrow> p = hd_opt as"
  by (cases as) auto

lemma list_seg_drop:
  "list_seg ns p as \<Longrightarrow> list_seg ns (hd_opt (drop k as)) (drop k as)"
proof (induction as arbitrary: p k)
  case Nil
  then show ?case by simp
next
  case (Cons a as)
  show ?case
  proof (cases k)
    case 0
    with Cons.prems show ?thesis by simp
  next
    case (Suc j)
    from Cons.prems have seg: "list_seg ns (nxt (ns ! a)) as" by simp
    from Cons.IH [OF seg, of j] show ?thesis
      using Suc by simp
  qed
qed

lemma list_seg_extend:
  "list_seg ns p as \<Longrightarrow> distinct as \<Longrightarrow> as \<noteq> [] \<Longrightarrow>
   list_seg ((ns @ [\<lparr>item = it, nxt = None\<rparr>])
               [last as := ((ns @ [\<lparr>item = it, nxt = None\<rparr>]) ! last as)\<lparr>nxt := Some (length ns)\<rparr>])
            p (as @ [length ns])"
proof (induction as arbitrary: p)
  case Nil
  then show ?case by simp
next
  case (Cons a as)
  from Cons.prems have p: "p = Some a" and a: "a < length ns"
    and seg: "list_seg ns (nxt (ns ! a)) as" and na: "a \<notin> set as" and d: "distinct as"
    by simp_all
  show ?case
  proof (cases as)
    case Nil
    with seg have "nxt (ns ! a) = None" by simp
    with p a Nil show ?thesis by (simp add: nth_append)
  next
    case (Cons a' as')
    then have ne: "as \<noteq> []" by simp
    from na ne have "last as \<noteq> a" by (metis last_in_set)
    with Cons.IH [OF seg d ne] p a ne show ?thesis
      by (simp add: nth_append)
  qed
qed

lemma bin_inv_new: "bin_inv Bin_new []"
  by (simp add: bin_inv_def Bin_new_def)

lemma bin_inv_add:
  assumes "bin_inv b as"
  shows "bin_inv (Bin_add it b) (as @ [length (nodes b)])"
    and "items_of (Bin_add it b) (as @ [length (nodes b)]) = items_of b as @ [it]"
proof -
  let ?n = "length (nodes b)"
  let ?new = "\<lparr>item = it, nxt = None\<rparr>"
  from assms have seg: "list_seg (nodes b) (head b) as" and d: "distinct as"
    and tl: "as \<noteq> [] \<longrightarrow> tail b = Some (last as)"
    and tv: "case tail b of None \<Rightarrow> True | Some t \<Rightarrow> t < ?n"
    by (simp_all add: bin_inv_def)
  have bound: "\<And>a. a \<in> set as \<Longrightarrow> a < ?n" using seg by (rule list_seg_bound)
  then have fresh: "?n \<notin> set as" by blast
  show "bin_inv (Bin_add it b) (as @ [?n])"
  proof (cases as)
    case Nil
    with seg have h: "head b = None" by simp
    show ?thesis
    proof (cases "tail b")
      case None
      with h Nil show ?thesis by (simp add: bin_inv_def Bin_add_def Let_def)
    next
      case (Some t)
      with tv have "t < ?n" by simp
      with h Nil Some show ?thesis by (simp add: bin_inv_def Bin_add_def Let_def nth_append)
    qed
  next
    case (Cons a as')
    then have ne: "as \<noteq> []" by simp
    with tl have t: "tail b = Some (last as)" by simp
    from seg Cons have h: "head b = Some a" by simp
    from ne have "last as \<in> set as" by simp
    then have lb: "last as < ?n" by (rule bound)
    have "list_seg ((nodes b @ [?new])[last as := ((nodes b @ [?new]) ! last as)\<lparr>nxt := Some ?n\<rparr>])
            (head b) (as @ [?n])"
      using seg d ne by (rule list_seg_extend)
    with h t d fresh ne show ?thesis
      by (simp add: bin_inv_def Bin_add_def Let_def)
  qed
  show "items_of (Bin_add it b) (as @ [?n]) = items_of b as @ [it]"
  proof (cases "tail b")
    case None
    then show ?thesis using bound
      by (auto simp: items_of_def Bin_add_def Let_def nth_append split: option.splits)
  next
    case (Some t)
    with tv have "t < ?n" by simp
    with Some show ?thesis using bound
      by (auto simp: items_of_def Bin_add_def Let_def nth_append nth_list_update split: option.splits)
  qed
qed



lemma Bin_destroy_inv:
  assumes "bin_inv b as" and "release_all (items_of b as) w = (rest, w', e)"
  shows "Bin_destroy b w = Some (b\<lparr>head := hd_opt (drop (length as - length rest) as)\<rparr>, w', e)"
    and "bin_inv (b\<lparr>head := hd_opt (drop (length as - length rest) as)\<rparr>) (drop (length as - length rest) as)"
    and "items_of (b\<lparr>head := hd_opt (drop (length as - length rest) as)\<rparr>) (drop (length as - length rest) as) = rest"
proof -
  let ?k = "length as - length rest"
  from assms(1) have seg: "list_seg (nodes b) (head b) as" and d: "distinct as"
    and tl: "as \<noteq> [] \<longrightarrow> tail b = Some (last as)"
    and tv: "case tail b of None \<Rightarrow> True | Some t \<Rightarrow> t < length (nodes b)"
    by (simp_all add: bin_inv_def)
  show "Bin_destroy b w = Some (b\<lparr>head := hd_opt (drop ?k as)\<rparr>, w', e)"
    unfolding Bin_destroy_def using destroy_loop_seg [OF seg refl, of w] assms(2) by simp
  from release_all_length [OF assms(2)] have le: "length rest \<le> length as"
    by (simp add: items_of_def)
  have "drop ?k as \<noteq> [] \<longrightarrow> last (drop ?k as) = last as" by simp
  with tl have "drop ?k as \<noteq> [] \<longrightarrow> tail b = Some (last (drop ?k as))" by auto
  with list_seg_drop [OF seg, of ?k] d tv
  show "bin_inv (b\<lparr>head := hd_opt (drop ?k as)\<rparr>) (drop ?k as)"
    by (simp add: bin_inv_def split: option.splits)
  from release_all_drop [OF assms(2)]
  show "items_of (b\<lparr>head := hd_opt (drop ?k as)\<rparr>) (drop ?k as) = rest"
    by (simp add: items_of_def drop_map)
qed

lemma bin_inv_isEmpty: "bin_inv b as \<Longrightarrow> isEmpty b \<longleftrightarrow> as = []"
  by (cases as) (auto simp: bin_inv_def isEmpty_def)

lemma bin_inv_adds:
  "bin_inv b as \<Longrightarrow>
   \<exists>bs. bin_inv (fold Bin_add ys b) (as @ bs) \<and>
        items_of (fold Bin_add ys b) (as @ bs) = items_of b as @ ys"
proof (induction ys arbitrary: b as)
  case Nil
  then show ?case by (intro exI [of _ "[]"]) simp
next
  case (Cons y ys)
  let ?n = "length (nodes b)"
  from bin_inv_add [OF Cons.prems, of y]
  have 1: "bin_inv (Bin_add y b) (as @ [?n])"
    and 2: "items_of (Bin_add y b) (as @ [?n]) = items_of b as @ [y]" by simp_all
  from Cons.IH [OF 1, unfolded 2] obtain bs where
    "bin_inv (fold Bin_add ys (Bin_add y b)) ((as @ [?n]) @ bs)"
    "items_of (fold Bin_add ys (Bin_add y b)) ((as @ [?n]) @ bs) = (items_of b as @ [y]) @ ys"
    by blast
  then show ?case by (intro exI [of _ "?n # bs"]) simp
qed


lemma Bin_reachable_inv: "Bin_reachable b \<Longrightarrow> \<exists>as. bin_inv b as"
proof (induction rule: Bin_reachable.induct)
  case new
  show ?case using bin_inv_new by blast
next
  case (added b it)
  then obtain as where "bin_inv b as" by blast
  from bin_inv_add(1) [OF this] show ?case by blast
next
  case (destroyed b w b' w' e)
  then obtain as where inv: "bin_inv b as" by blast
  obtain rest w1 e1 where rel: "release_all (items_of b as) w = (rest, w1, e1)"
    by (cases "release_all (items_of b as) w") auto
  from Bin_destroy_inv(1,2) [OF inv rel] destroyed.hyps(2) show ?case by auto
qed

text \<open>
  Claim C5, as the code has it. For every Bin with any sequence of added items,
  \<open>destroy\<close> returns, having released the items in insertion order up to the first
  release that raises: that raise leaves \<open>destroy\<close> at once as its own, the items
  before it are released and gone from the Bin, and the item that raised and every
  item after it stay in the Bin, not released. When no release raises, all items are
  released and the Bin is empty.
\<close>

theorem Bin_destroy_in_order:
  "\<exists>b' as. Bin_destroy (fold Bin_add xs Bin_new) w = Some (b', snd (release_all xs w)) \<and>
      bin_inv b' as \<and> items_of b' as = fst (release_all xs w) \<and>
      isEmpty b' = (fst (release_all xs w) = []) \<and>
      (snd (snd (release_all xs w)) = None) = (fst (release_all xs w) = [])"
proof -
  from bin_inv_adds [OF bin_inv_new, of xs] obtain bs where
    inv: "bin_inv (fold Bin_add xs Bin_new) bs"
    and its: "items_of (fold Bin_add xs Bin_new) bs = xs"
    by (auto simp: items_of_def)
  obtain rest w' e where rel: "release_all xs w = (rest, w', e)"
    by (cases "release_all xs w") auto
  let ?b = "(fold Bin_add xs Bin_new)\<lparr>head := hd_opt (drop (length bs - length rest) bs)\<rparr>"
  from rel its have rel': "release_all (items_of (fold Bin_add xs Bin_new) bs) w = (rest, w', e)"
    by simp
  note d = Bin_destroy_inv [OF inv rel']
  from d(3) have "isEmpty ?b = (rest = [])"
    using bin_inv_isEmpty [OF d(2)] by (auto simp: items_of_def)
  with d rel release_all_error [OF rel] show ?thesis
    by (intro exI [of _ ?b] exI [of _ "drop (length bs - length rest) bs"]) simp
qed

theorem Bin_destroy_in_order_witness:
  "\<exists>b' as. Bin_destroy (fold Bin_add [Thread 1, Function failing, Thread 2] Bin_new) nothing =
        Some (b', nothing\<lparr>cancelled := [1]\<rparr>, Some (Error ''release failed'')) \<and>
      bin_inv b' as \<and> items_of b' as = [Function failing, Thread 2] \<and> \<not> isEmpty b'"
  using Bin_destroy_in_order [of "[Thread 1, Function failing, Thread 2]" nothing]
  by (simp add: failing_def nothing_def task_cancel_def)

text \<open>
  The claim as it was stated fails: a release that raises is not swallowed. With a
  failing callback added before a thread, \<open>destroy\<close> raises the callback's error and
  the thread is not cancelled.
\<close>

theorem raise_stops_destroy:
  "map_option snd (Bin_destroy (fold Bin_add [Function failing, Thread 2] Bin_new) nothing) =
     Some (nothing, Some (Error ''release failed'')) \<and>
   cancelled nothing = [] \<and>
   map_option (isEmpty \<circ> fst) (Bin_destroy (fold Bin_add [Function failing, Thread 2] Bin_new) nothing) =
     Some False"
proof -
  have r: "release_all [Function failing, Thread 2] nothing =
      ([Function failing, Thread 2], nothing, Some (Error ''release failed''))"
    by (simp add: failing_def)
  from bin_inv_adds [OF bin_inv_new, of "[Function failing, Thread 2]"] obtain bs where
    inv: "bin_inv (fold Bin_add [Function failing, Thread 2] Bin_new) bs"
    and its: "items_of (fold Bin_add [Function failing, Thread 2] Bin_new) bs =
        [Function failing, Thread 2]"
    by (auto simp: items_of_def)
  from r its have rel: "release_all (items_of (fold Bin_add [Function failing, Thread 2] Bin_new) bs)
      nothing = ([Function failing, Thread 2], nothing, Some (Error ''release failed''))"
    by simp
  note d = Bin_destroy_inv [OF inv rel]
  from d(3) bin_inv_isEmpty [OF d(2)] have "\<not> isEmpty
      ((fold Bin_add [Function failing, Thread 2] Bin_new)
         \<lparr>head := hd_opt (drop (length bs - length [Function failing, Thread 2]) bs)\<rparr>)"
    by (auto simp: items_of_def)
  with d(1) show ?thesis by (simp add: nothing_def)
qed

text \<open>
  The Bin \<open>loaded\<close>: its first \<open>destroy\<close> raises at the callback and leaves both
  items in the Bin.
\<close>

lemma loaded_inv: "bin_inv loaded [0, 1] \<and> items_of loaded [0, 1] = [Function fails_once, Thread 2]"
  by (simp add: loaded_def bin_inv_def items_of_def Bin_add_def Bin_new_def)

lemma half_destroyed_facts:
  "Bin_destroy loaded nothing =
     Some (half_destroyed, nothing\<lparr>cancelled := [7]\<rparr>, Some (Error ''release failed''))"
  "bin_inv half_destroyed [0, 1]"
  "items_of half_destroyed [0, 1] = [Function fails_once, Thread 2]"
proof -
  from loaded_inv have inv: "bin_inv loaded [0, 1]"
    and its: "items_of loaded [0, 1] = [Function fails_once, Thread 2]" by simp_all
  have "release_all [Function fails_once, Thread 2] nothing =
      ([Function fails_once, Thread 2], nothing\<lparr>cancelled := [7]\<rparr>, Some (Error ''release failed''))"
    by (simp add: fails_once_def task_cancel_def nothing_def)
  then have rel: "release_all (items_of loaded [0, 1]) nothing =
      ([Function fails_once, Thread 2], nothing\<lparr>cancelled := [7]\<rparr>, Some (Error ''release failed''))"
    unfolding its .
  note d = Bin_destroy_inv [OF inv rel]
  from d(1) have h: "half_destroyed = loaded\<lparr>head := hd_opt [0, 1]\<rparr>"
    by (simp add: half_destroyed_def)
  from d show "Bin_destroy loaded nothing =
     Some (half_destroyed, nothing\<lparr>cancelled := [7]\<rparr>, Some (Error ''release failed''))"
    "bin_inv half_destroyed [0, 1]"
    "items_of half_destroyed [0, 1] = [Function fails_once, Thread 2]"
    by (simp_all add: h)
qed

text \<open>
  Claim C10, as the code has it. For every Bin (every Bin the program can build has a
  list \<open>as\<close> with \<open>bin_inv\<close>, by \<open>Bin_reachable_inv\<close>) and every outcome of
  \<open>destroy\<close>: \<open>destroy\<close> returns, leaving the \<open>tail\<close> as it was and in the Bin the items
  \<open>rest\<close> that it has not released, which are none exactly when it did not raise.
  Items \<open>ys\<close> added from then on are appended to these, and the next \<open>destroy\<close>
  releases \<open>rest\<close> and then \<open>ys\<close>, each once and in order, up to a release that
  raises. So after a \<open>destroy\<close> that did not raise the items added since form a
  fresh list, and after one that raised the item that raised and the items behind
  it are released by the next \<open>destroy\<close> as well. \<open>isEmpty\<close> is true exactly when the
  list of items not yet released is empty.
\<close>

theorem Bin_fresh_list_after_destroy:
  assumes "bin_inv b as"
    and "release_all (items_of b as) w = (rest, w1, e)"
  shows "\<exists>b1. Bin_destroy b w = Some (b1, w1, e) \<and> tail b1 = tail b \<and>
     isEmpty b1 = (rest = []) \<and> (e = None) = (rest = []) \<and>
     (\<exists>b2 bs. Bin_destroy (fold Bin_add ys b1) w2 = Some (b2, snd (release_all (rest @ ys) w2)) \<and>
        bin_inv b2 bs \<and> items_of b2 bs = fst (release_all (rest @ ys) w2) \<and>
        isEmpty b2 = (fst (release_all (rest @ ys) w2) = [])) \<and>
     isEmpty b = (items_of b as = [])"
proof -
  let ?as1 = "drop (length as - length rest) as"
  let ?b1 = "b\<lparr>head := hd_opt ?as1\<rparr>"
  note d = Bin_destroy_inv [OF assms]
  from d(3) bin_inv_isEmpty [OF d(2)] have empty1: "isEmpty ?b1 = (rest = [])"
    by (auto simp: items_of_def)
  from bin_inv_adds [OF d(2), of ys] d(3) obtain cs where
    inv2: "bin_inv (fold Bin_add ys ?b1) (?as1 @ cs)"
    and its2: "items_of (fold Bin_add ys ?b1) (?as1 @ cs) = rest @ ys"
    by auto
  obtain rest2 w3 e2 where rel2: "release_all (rest @ ys) w2 = (rest2, w3, e2)"
    by (cases "release_all (rest @ ys) w2") auto
  with its2 have rel2':
    "release_all (items_of (fold Bin_add ys ?b1) (?as1 @ cs)) w2 = (rest2, w3, e2)"
    by simp
  note d2 = Bin_destroy_inv [OF inv2 rel2']
  let ?bs = "drop (length (?as1 @ cs) - length rest2) (?as1 @ cs)"
  let ?b2 = "(fold Bin_add ys ?b1)\<lparr>head := hd_opt ?bs\<rparr>"
  from d2(3) bin_inv_isEmpty [OF d2(2)] have "isEmpty ?b2 = (rest2 = [])"
    by (auto simp: items_of_def)
  with d2 rel2 have second:
    "\<exists>b2 bs. Bin_destroy (fold Bin_add ys ?b1) w2 = Some (b2, snd (release_all (rest @ ys) w2)) \<and>
        bin_inv b2 bs \<and> items_of b2 bs = fst (release_all (rest @ ys) w2) \<and>
        isEmpty b2 = (fst (release_all (rest @ ys) w2) = [])"
    by (intro exI [of _ ?b2] exI [of _ ?bs]) simp
  have "isEmpty b = (items_of b as = [])"
    using bin_inv_isEmpty [OF assms(1)] by (simp add: items_of_def)
  with d(1) empty1 release_all_error [OF assms(2)] second show ?thesis
    by (intro exI [of _ ?b1]) simp
qed

theorem Bin_fresh_list_after_destroy_witness:
  "bin_inv (Bin_add (Thread 1) Bin_new) [0] \<and>
   release_all (items_of (Bin_add (Thread 1) Bin_new) [0]) nothing =
     ([], nothing\<lparr>cancelled := [1]\<rparr>, None) \<and>
   (\<exists>b1. Bin_destroy (Bin_add (Thread 1) Bin_new) nothing =
        Some (b1, nothing\<lparr>cancelled := [1]\<rparr>, None) \<and>
      tail b1 = Some 0 \<and> isEmpty b1 \<and>
      (\<exists>b2. Bin_destroy (fold Bin_add [Thread 2, Thread 3] b1) (nothing\<lparr>cancelled := [1]\<rparr>) =
          Some (b2, nothing\<lparr>cancelled := [1, 2, 3]\<rparr>, None) \<and>
        isEmpty b2)) \<and>
   \<not> isEmpty (Bin_add (Thread 1) Bin_new)"
proof -
  have inv: "bin_inv (Bin_add (Thread 1) Bin_new) [0]"
    by (simp add: bin_inv_def Bin_add_def Bin_new_def)
  have rel: "release_all (items_of (Bin_add (Thread 1) Bin_new) [0]) nothing =
      ([], nothing\<lparr>cancelled := [1]\<rparr>, None)"
    by (simp add: items_of_def Bin_add_def Bin_new_def task_cancel_def nothing_def)
  have rel2: "release_all [Thread 2, Thread 3] (nothing\<lparr>cancelled := [1]\<rparr>) =
      ([], nothing\<lparr>cancelled := [1, 2, 3]\<rparr>, None)"
    by (simp add: task_cancel_def nothing_def)
  from Bin_fresh_list_after_destroy [OF inv rel, of "[Thread 2, Thread 3]" "nothing\<lparr>cancelled := [1]\<rparr>"]
  obtain b1 b2 where
    "Bin_destroy (Bin_add (Thread 1) Bin_new) nothing = Some (b1, nothing\<lparr>cancelled := [1]\<rparr>, None)"
    "tail b1 = tail (Bin_add (Thread 1) Bin_new)" "isEmpty b1"
    "Bin_destroy (fold Bin_add [Thread 2, Thread 3] b1) (nothing\<lparr>cancelled := [1]\<rparr>) =
       Some (b2, nothing\<lparr>cancelled := [1, 2, 3]\<rparr>, None)"
    "isEmpty b2"
    unfolding append_Nil rel2 fst_conv snd_conv by auto
  moreover have "tail (Bin_add (Thread 1) Bin_new) = Some 0"
    "\<not> isEmpty (Bin_add (Thread 1) Bin_new)"
    by (simp_all add: Bin_add_def Bin_new_def isEmpty_def)
  ultimately show ?thesis using inv rel by auto
qed

text \<open>
  The claim as it was stated fails after a \<open>destroy\<close> that raised: the first \<open>destroy\<close>
  of \<open>loaded\<close> runs the callback, which raises; after that a thread \<open>3\<close> is added, and
  the next \<open>destroy\<close> runs the callback a second time and cancels the earlier thread
  \<open>2\<close> before it cancels thread \<open>3\<close>.
\<close>

theorem earlier_items_released_again:
  "Bin_destroy loaded nothing =
     Some (half_destroyed, nothing\<lparr>cancelled := [7]\<rparr>, Some (Error ''release failed'')) \<and>
   map_option snd (Bin_destroy (Bin_add (Thread 3) half_destroyed) (nothing\<lparr>cancelled := [7]\<rparr>)) =
     Some (nothing\<lparr>cancelled := [7, 7, 2, 3]\<rparr>, None)"
proof -
  from bin_inv_add [OF half_destroyed_facts(2), of "Thread 3"] half_destroyed_facts(3)
  have inv: "bin_inv (Bin_add (Thread 3) half_destroyed) ([0, 1] @ [length (nodes half_destroyed)])"
    and its: "items_of (Bin_add (Thread 3) half_destroyed) ([0, 1] @ [length (nodes half_destroyed)]) =
        [Function fails_once, Thread 2, Thread 3]"
    by simp_all
  have "release_all [Function fails_once, Thread 2, Thread 3] (nothing\<lparr>cancelled := [7]\<rparr>) =
      ([], nothing\<lparr>cancelled := [7, 7, 2, 3]\<rparr>, None)"
    by (simp add: fails_once_def task_cancel_def nothing_def)
  then have rel: "release_all (items_of (Bin_add (Thread 3) half_destroyed)
        ([0, 1] @ [length (nodes half_destroyed)])) (nothing\<lparr>cancelled := [7]\<rparr>) =
      ([], nothing\<lparr>cancelled := [7, 7, 2, 3]\<rparr>, None)"
    unfolding its .
  from Bin_destroy_inv(1) [OF inv rel] half_destroyed_facts(1) show ?thesis by simp
qed

section \<open>The rig\<close>

text \<open>
  Claim C7. For every entity that has the parts, \<open>constructPoints\<close> returns, and the
  box points are: the top at half the root's height plus the head's height plus
  \<open>0.4\<close>; the bottom at minus half the root's height minus the right leg's height
  minus \<open>0.3\<close>; the four corners children of the top and bottom points at plus and
  minus half the root's width plus the right arm's width plus \<open>0.2\<close>; top and bottom
  children of the centre, and the centre attached to the root part (the
  \<open>HumanoidRootPart\<close>, or the \<open>Torso\<close> when there is none). Along the chain, the corners
  sit at \<open>(\<plusminus>LR, U)\<close> and \<open>(\<plusminus>LR, D)\<close> from the root.
\<close>

theorem constructPoints_box:
  assumes "Parts m ''Head'' = Some head_size"
    and "Parts m ''Right Arm'' = Some right_arm_size"
    and "Parts m ''Right Leg'' = Some right_leg_size"
    and "Parts m ''HumanoidRootPart'' = Some root_size \<and> root_name = ''HumanoidRootPart'' \<or>
         Parts m ''HumanoidRootPart'' = None \<and> Parts m ''Torso'' = Some root_size \<and>
         root_name = ''Torso''"
    and "U = Y root_size / 2 + Y head_size + 0.4"
    and "D = - (Y root_size / 2) - Y right_leg_size - 0.3"
    and "LR = X root_size / 2 + X right_arm_size + 0.2"
  shows "\<exists>pts. constructPoints m = Some pts \<and>
     pts C = \<lparr>offset = Vector3 0 0 0, attached = Some (OnPart root_name)\<rparr> \<and>
     pts T = \<lparr>offset = Vector3 0 U 0, attached = Some (OnPoint C)\<rparr> \<and>
     pts B = \<lparr>offset = Vector3 0 D 0, attached = Some (OnPoint C)\<rparr> \<and>
     pts TL = \<lparr>offset = Vector3 (- LR) 0 0, attached = Some (OnPoint T)\<rparr> \<and>
     pts TR = \<lparr>offset = Vector3 LR 0 0, attached = Some (OnPoint T)\<rparr> \<and>
     pts BL = \<lparr>offset = Vector3 (- LR) 0 0, attached = Some (OnPoint B)\<rparr> \<and>
     pts BR = \<lparr>offset = Vector3 LR 0 0, attached = Some (OnPoint B)\<rparr> \<and>
     chain 3 pts TL = Some (root_name, Vector3 (- LR) U 0) \<and>
     chain 3 pts TR = Some (root_name, Vector3 LR U 0) \<and>
     chain 3 pts BL = Some (root_name, Vector3 (- LR) D 0) \<and>
     chain 3 pts BR = Some (root_name, Vector3 LR D 0)"
  using assms
  by (auto simp: constructPoints_def WaitForChild_def Attachment_new_def numeral_3_eq_3 Let_def)

theorem constructPoints_box_witness:
  "Parts (r6 1) ''Head'' = Some (Vector3 2 1 1) \<and>
   Parts (r6 1) ''Right Arm'' = Some (Vector3 1 2 1) \<and>
   Parts (r6 1) ''Right Leg'' = Some (Vector3 1 2 1) \<and>
   Parts (r6 1) ''HumanoidRootPart'' = Some (Vector3 2 2 1) \<and>
   (\<exists>pts. constructPoints (r6 1) = Some pts \<and>
     pts C = \<lparr>offset = Vector3 0 0 0, attached = Some (OnPart ''HumanoidRootPart'')\<rparr> \<and>
     pts T = \<lparr>offset = Vector3 0 (12 / 5) 0, attached = Some (OnPoint C)\<rparr> \<and>
     pts B = \<lparr>offset = Vector3 0 (- (33 / 10)) 0, attached = Some (OnPoint C)\<rparr> \<and>
     pts TL = \<lparr>offset = Vector3 (- (11 / 5)) 0 0, attached = Some (OnPoint T)\<rparr> \<and>
     pts BR = \<lparr>offset = Vector3 (11 / 5) 0 0, attached = Some (OnPoint B)\<rparr> \<and>
     chain 3 pts TL = Some (''HumanoidRootPart'', Vector3 (- (11 / 5)) (12 / 5) 0) \<and>
     chain 3 pts BR = Some (''HumanoidRootPart'', Vector3 (11 / 5) (- (33 / 10)) 0))"
proof -
  have parts: "Parts (r6 1) ''Head'' = Some (Vector3 2 1 1)"
    "Parts (r6 1) ''Right Arm'' = Some (Vector3 1 2 1)"
    "Parts (r6 1) ''Right Leg'' = Some (Vector3 1 2 1)"
    "Parts (r6 1) ''HumanoidRootPart'' = Some (Vector3 2 2 1)"
    by (simp_all add: r6_def)
  have root: "Parts (r6 1) ''HumanoidRootPart'' = Some (Vector3 2 2 1) \<and>
      ''HumanoidRootPart'' = ''HumanoidRootPart'' \<or>
      Parts (r6 1) ''HumanoidRootPart'' = None \<and> Parts (r6 1) ''Torso'' = Some (Vector3 2 2 1) \<and>
      ''HumanoidRootPart'' = ''Torso''"
    using parts(4) by simp
  have U: "(12 / 5 :: real) = Y (Vector3 2 2 1) / 2 + Y (Vector3 2 1 1) + 0.4" by simp
  have D: "(- (33 / 10) :: real) = - (Y (Vector3 2 2 1) / 2) - Y (Vector3 1 2 1) - 0.3" by simp
  have LR: "(11 / 5 :: real) = X (Vector3 2 2 1) / 2 + X (Vector3 1 2 1) + 0.2" by simp
  from constructPoints_box [OF parts(1) parts(2) parts(3) root U D LR] parts
  show ?thesis by blast
qed

text \<open>
  Claim C6, as the code has it. For every entity that has the parts, \<open>constructBones\<close>
  returns, and each of the 11 joints is attached directly to its own part: the face
  at plus half the head's height; neck and waist at plus and minus half the torso's
  height; the shoulders at plus and the hands at minus half the height of the
  \<^emph>\<open>right\<close> arm, the hips at plus and the feet at minus half the height of the \<^emph>\<open>right\<close>
  leg, on the left side as on the right. The sizes of the left arm and the left leg
  are not used.
\<close>

theorem constructBones_joints:
  assumes "Parts m ''Head'' = Some head_size"
    and "Parts m ''Torso'' = Some torso_size"
    and "Parts m ''Right Arm'' = Some right_arm_size"
    and "Parts m ''Right Leg'' = Some right_leg_size"
    and "Parts m ''Left Arm'' = Some left_arm_size"
    and "Parts m ''Left Leg'' = Some left_leg_size"
  shows "\<exists>bns. constructBones m = Some bns \<and>
     bns face = \<lparr>offset = Vector3 0 (Y head_size / 2) 0, attached = Some (OnPart ''Head'')\<rparr> \<and>
     bns neck = \<lparr>offset = Vector3 0 (Y torso_size / 2) 0, attached = Some (OnPart ''Torso'')\<rparr> \<and>
     bns waist = \<lparr>offset = Vector3 0 (- (Y torso_size / 2)) 0, attached = Some (OnPart ''Torso'')\<rparr> \<and>
     bns right_shoulder =
       \<lparr>offset = Vector3 0 (Y right_arm_size / 2) 0, attached = Some (OnPart ''Right Arm'')\<rparr> \<and>
     bns right_hand =
       \<lparr>offset = Vector3 0 (- (Y right_arm_size / 2)) 0, attached = Some (OnPart ''Right Arm'')\<rparr> \<and>
     bns right_hip =
       \<lparr>offset = Vector3 0 (Y right_leg_size / 2) 0, attached = Some (OnPart ''Right Leg'')\<rparr> \<and>
     bns right_foot =
       \<lparr>offset = Vector3 0 (- (Y right_leg_size / 2)) 0, attached = Some (OnPart ''Right Leg'')\<rparr> \<and>
     bns left_shoulder =
       \<lparr>offset = Vector3 0 (Y right_arm_size / 2) 0, attached = Some (OnPart ''Left Arm'')\<rparr> \<and>
     bns left_hand =
       \<lparr>offset = Vector3 0 (- (Y right_arm_size / 2)) 0, attached = Some (OnPart ''Left Arm'')\<rparr> \<and>
     bns left_hip =
       \<lparr>offset = Vector3 0 (Y right_leg_size / 2) 0, attached = Some (OnPart ''Left Leg'')\<rparr> \<and>
     bns left_foot =
       \<lparr>offset = Vector3 0 (- (Y right_leg_size / 2)) 0, attached = Some (OnPart ''Left Leg'')\<rparr>"
  using assms by (simp add: constructBones_def WaitForChild_def Let_def)

theorem constructBones_joints_witness:
  "Parts uneven ''Head'' = Some (Vector3 2 1 1) \<and>
   Parts uneven ''Torso'' = Some (Vector3 2 2 1) \<and>
   Parts uneven ''Right Arm'' = Some (Vector3 1 2 1) \<and>
   Parts uneven ''Right Leg'' = Some (Vector3 1 2 1) \<and>
   Parts uneven ''Left Arm'' = Some (Vector3 1 4 1) \<and>
   Parts uneven ''Left Leg'' = Some (Vector3 1 2 1) \<and>
   (\<exists>bns. constructBones uneven = Some bns \<and>
      bns face = \<lparr>offset = Vector3 0 (1 / 2) 0, attached = Some (OnPart ''Head'')\<rparr> \<and>
      bns waist = \<lparr>offset = Vector3 0 (- 1) 0, attached = Some (OnPart ''Torso'')\<rparr> \<and>
      bns left_shoulder = \<lparr>offset = Vector3 0 1 0, attached = Some (OnPart ''Left Arm'')\<rparr> \<and>
      bns left_hand = \<lparr>offset = Vector3 0 (- 1) 0, attached = Some (OnPart ''Left Arm'')\<rparr>)"
proof -
  have parts: "Parts uneven ''Head'' = Some (Vector3 2 1 1)"
    "Parts uneven ''Torso'' = Some (Vector3 2 2 1)"
    "Parts uneven ''Right Arm'' = Some (Vector3 1 2 1)"
    "Parts uneven ''Right Leg'' = Some (Vector3 1 2 1)"
    "Parts uneven ''Left Arm'' = Some (Vector3 1 4 1)"
    "Parts uneven ''Left Leg'' = Some (Vector3 1 2 1)"
    by (simp_all add: uneven_def)
  from constructBones_joints [OF parts] obtain bns where
    "constructBones uneven = Some bns"
    "bns face = \<lparr>offset = Vector3 0 (Y (Vector3 2 1 1) / 2) 0, attached = Some (OnPart ''Head'')\<rparr>"
    "bns waist = \<lparr>offset = Vector3 0 (- (Y (Vector3 2 2 1) / 2)) 0, attached = Some (OnPart ''Torso'')\<rparr>"
    "bns left_shoulder =
       \<lparr>offset = Vector3 0 (Y (Vector3 1 2 1) / 2) 0, attached = Some (OnPart ''Left Arm'')\<rparr>"
    "bns left_hand =
       \<lparr>offset = Vector3 0 (- (Y (Vector3 1 2 1) / 2)) 0, attached = Some (OnPart ''Left Arm'')\<rparr>"
    by blast
  then have "\<exists>bns. constructBones uneven = Some bns \<and>
      bns face = \<lparr>offset = Vector3 0 (1 / 2) 0, attached = Some (OnPart ''Head'')\<rparr> \<and>
      bns waist = \<lparr>offset = Vector3 0 (- 1) 0, attached = Some (OnPart ''Torso'')\<rparr> \<and>
      bns left_shoulder = \<lparr>offset = Vector3 0 1 0, attached = Some (OnPart ''Left Arm'')\<rparr> \<and>
      bns left_hand = \<lparr>offset = Vector3 0 (- 1) 0, attached = Some (OnPart ''Left Arm'')\<rparr>"
    by (intro exI [of _ bns]) simp
  with parts show ?thesis by blast
qed

text \<open>
  The claim as it was stated fails on the left side: the left arm of \<open>uneven\<close> is
  \<open>4\<close> high, and its shoulder joint sits at \<open>1\<close>, half the height of the right arm,
  not at \<open>2\<close>.
\<close>

theorem left_shoulder_not_half_of_left_arm:
  "Parts uneven ''Left Arm'' = Some (Vector3 1 4 1) \<and>
   attached (the (constructBones uneven) left_shoulder) = Some (OnPart ''Left Arm'') \<and>
   offset (the (constructBones uneven) left_shoulder) = Vector3 0 1 0 \<and>
   offset (the (constructBones uneven) left_shoulder) \<noteq> Vector3 0 (Y (Vector3 1 4 1) / 2) 0"
  by (simp add: uneven_def constructBones_def WaitForChild_def Let_def)

section \<open>Rendering\<close>

lemma modify_fields [simp]:
  "instances (modify i f w) = instances w"
  "connections (modify i f w) = connections w"
  "cancelled (modify i f w) = cancelled w"
  "length (gui (modify i f w)) = length (gui w)"
  by (simp_all add: modify_def)


lemma fold_modify_fields [simp]:
  "instances (fold (\<lambda>l. modify l f) ls w) = instances w"
  "connections (fold (\<lambda>l. modify l f) ls w) = connections w"
  "cancelled (fold (\<lambda>l. modify l f) ls w) = cancelled w"
  "length (gui (fold (\<lambda>l. modify l f) ls w)) = length (gui w)"
  by (induction ls arbitrary: w) simp_all


lemma setVisible_fields [simp]:
  "instances (setVisible esp v w) = instances w"
  "connections (setVisible esp v w) = connections w"
  "cancelled (setVisible esp v w) = cancelled w"
  "length (gui (setVisible esp v w)) = length (gui w)"
  by (simp_all add: setVisible_def Let_def)


lemma update_lines_fields [simp]:
  "instances (update_lines ls proj es w) = instances w"
  "connections (update_lines ls proj es w) = connections w"
  "cancelled (update_lines ls proj es w) = cancelled w"
  "length (gui (update_lines ls proj es w)) = length (gui w)"
proof -
  have "instances (fold (\<lambda>(k, (p, q)). modify (ls ! k) (\<lambda>g. updateLineFromPoints g (xy (proj p)) (xy (proj q)))) zs w) = instances w
    \<and> connections (fold (\<lambda>(k, (p, q)). modify (ls ! k) (\<lambda>g. updateLineFromPoints g (xy (proj p)) (xy (proj q)))) zs w) = connections w
    \<and> cancelled (fold (\<lambda>(k, (p, q)). modify (ls ! k) (\<lambda>g. updateLineFromPoints g (xy (proj p)) (xy (proj q)))) zs w) = cancelled w
    \<and> length (gui (fold (\<lambda>(k, (p, q)). modify (ls ! k) (\<lambda>g. updateLineFromPoints g (xy (proj p)) (xy (proj q)))) zs w)) = length (gui w)"
    for zs
    by (induction zs arbitrary: w) (auto split: prod.splits)
  then show "instances (update_lines ls proj es w) = instances w"
  "connections (update_lines ls proj es w) = connections w"
  "cancelled (update_lines ls proj es w) = cancelled w"
  "length (gui (update_lines ls proj es w)) = length (gui w)"
    by (simp_all add: update_lines_def)
qed

lemma render_fields:
  "instances (fst (render cam r esp w)) = instances w"
  "connections (fst (render cam r esp w)) = connections w"
  "cancelled (fst (render cam r esp w)) = cancelled w"
  "length (gui (fst (render cam r esp w))) = length (gui w)"
  by (simp_all add: render_def Let_def split: option.splits)




section \<open>The constructor\<close>

lemma new_lines_result:
  "new_lines k b w =
     ([length (gui w) ..< length (gui w) + k],
      fold Bin_add (map instance_item [length (gui w) ..< length (gui w) + k]) b,
      w\<lparr>gui := gui w @ replicate k hidden_line\<rparr>)"
proof (induction k arbitrary: b w)
  case 0
  show ?case by simp
next
  case (Suc k)
  let ?n = "length (gui w)"
  have up: "[?n ..< ?n + Suc k] = ?n # [Suc ?n ..< Suc ?n + k]"
    by (simp add: upt_conv_Cons)
  have rep: "gui w @ hidden_line # replicate k hidden_line = gui w @ replicate k hidden_line @ [hidden_line]"
    by (simp add: replicate_append_same)
  have step: "new_line b w = (?n, Bin_add (instance_item ?n) b, w\<lparr>gui := gui w @ [hidden_line]\<rparr>)"
    by (simp add: new_line_def new_Instance_def hidden_line_def)
  have "new_lines (Suc k) b w =
     (?n # [Suc ?n ..< Suc ?n + k],
      fold Bin_add (map instance_item [Suc ?n ..< Suc ?n + k]) (Bin_add (instance_item ?n) b),
      w\<lparr>gui := (gui w @ [hidden_line]) @ replicate k hidden_line\<rparr>)"
    by (simp only: new_lines.simps step Let_def prod.case Suc.IH) simp
  then show ?case
    unfolding up by (simp add: replicate_append_same del: upt_Suc replicate_Suc) (simp add: replicate_app_Cons_same)
qed

lemma constructLines_result:
  "constructLines b w =
     ([length (gui w) ..< length (gui w) + 4], [length (gui w) + 4 ..< length (gui w) + 14],
      fold Bin_add (map instance_item [length (gui w) ..< length (gui w) + 14]) b,
      w\<lparr>gui := gui w @ replicate 14 hidden_line\<rparr>)"
proof -
  let ?n = "length (gui w)"
  have split: "[?n ..< ?n + 14] = [?n ..< ?n + 4] @ [?n + 4 ..< ?n + 14]"
    using upt_add_eq_append [of ?n "?n + 4" 10] by (simp add: add.assoc)
  have rep: "replicate 4 hidden_line @ replicate 10 hidden_line = replicate 14 hidden_line"
    by (simp add: replicate_add [symmetric])
  show ?thesis
    unfolding split
    by (simp add: constructLines_def new_lines_result rep add.assoc del: upt_Suc replicate_Suc)
qed

lemma setLabels_fields [simp]:
  "instances (snd (setLabels l m d b w)) = instances w"
  "connections (snd (setLabels l m d b w)) = connections w"
  "cancelled (snd (setLabels l m d b w)) = cancelled w"
  "length (gui (snd (setLabels l m d b w))) = length (gui w)"
  "fst (setLabels l m d b w) = Bin_add (instance_item (container l)) b"
  by (simp_all add: setLabels_def Let_def)

lemma update_fields [simp]:
  "instances (update cy esp w) = instances w"
  "connections (update cy esp w) = connections w"
  "cancelled (update cy esp w) = cancelled w"
  "length (gui (update cy esp w)) = length (gui w)"
  by (simp_all add: update_def Let_def)

lemma ESP_new_eq:
  assumes "Humanoid m = Some d" "constructPoints m = Some pts" "constructBones m = Some bns"
    and n: "n = length (gui (world s))"
    and l: "l = \<lparr>container = n, name = n + 1, data = n + 2\<rparr>"
    and esp: "esp = \<lparr>bin = fold Bin_add (map instance_item ([n + 3 ..< n + 17] @ [n]) @
                 [Function (instances_delete (ref m))]) Bin_new,
               entity = m, humanoid = d, points = pts, bones = bns,
               box_lines = [n + 3 ..< n + 7], bone_lines = [n + 7 ..< n + 17], labels = l\<rparr>"
    and w4: "w4 = (world s)\<lparr>gui := (gui (world s) @ [Instance_new, Instance_new, Instance_new]) @
                 replicate 14 hidden_line\<rparr>"
    and w5: "w5 = snd (setLabels l m d Bin_new w4)"
    and w7: "w7 = w5\<lparr>instances := (instances w5)(ref m \<mapsto> length (esps s)),
                 connections := connections w5 @
                   [\<lparr>signal = ref m, listener = length (esps s), Connected = True\<rparr>]\<rparr>"
  shows "ESP_new cy m s = Some (s\<lparr>world := update cy esp w7, esps := esps s @ [esp]\<rparr>)"
proof -
  let ?w3 = "(world s)\<lparr>gui := gui (world s) @ [Instance_new, Instance_new, Instance_new]\<rparr>"
  have len3: "length (gui ?w3) = n + 3" by (simp add: n)
  have cl: "constructLines Bin_new ?w3 =
     ([n + 3 ..< n + 7], [n + 7 ..< n + 17],
      fold Bin_add (map instance_item [n + 3 ..< n + 17]) Bin_new, w4)"
    unfolding constructLines_result len3 w4 by (simp add: add.assoc del: upt_Suc replicate_Suc)
  have three: "new_Instance Instance_new (world s) = (n, (world s)\<lparr>gui := gui (world s) @ [Instance_new]\<rparr>)"
    "new_Instance Instance_new ((world s)\<lparr>gui := gui (world s) @ [Instance_new]\<rparr>) =
       (n + 1, (world s)\<lparr>gui := gui (world s) @ [Instance_new, Instance_new]\<rparr>)"
    "new_Instance Instance_new ((world s)\<lparr>gui := gui (world s) @ [Instance_new, Instance_new]\<rparr>) =
       (n + 2, ?w3)"
    by (simp_all add: new_Instance_def n)
  have sl: "setLabels l m d b' w4 = (Bin_add (instance_item n) b', w5)" for b'
    by (simp add: w5 setLabels_def Let_def l)
  show ?thesis
    unfolding ESP_new_def
    by (simp only: assms(1-3) bind.bind_lunit three Let_def prod.case cl sl l [symmetric])
       (simp add: esp w7 l)
qed


lemma ESP_new_SomeD:
  assumes "ESP_new cy m s = Some s'"
  shows "\<exists>d pts bns. Humanoid m = Some d \<and> constructPoints m = Some pts \<and> constructBones m = Some bns"
  using assms
  by (cases "Humanoid m"; cases "constructPoints m"; cases "constructBones m")
     (simp_all add: ESP_new_def)

lemma upt_3_17: "[n + 3 ..< n + 7] @ [n + 7 ..< n + 17] = [n + 3 ..< n + (17::nat)]"
  using upt_add_eq_append [of "n + 3" "n + 7" 10] by (simp add: add.assoc)

lemma ESP_new_facts:
  assumes "ESP_new cy m s = Some s'"
  shows "\<exists>esp. esps s' = esps s @ [esp] \<and> entity esp = m \<and>
     length (box_lines esp) = 4 \<and> length (bone_lines esp) = 10 \<and>
     (\<forall>g \<in> set (lines_of esp). length (gui (world s)) \<le> g \<and> g < length (gui (world s'))) \<and>
     (\<exists>as. as \<noteq> [] \<and> bin_inv (bin esp) as \<and> items_of (bin esp) as = overlay_items esp) \<and>
     instances (world s') = (instances (world s))(ref m \<mapsto> length (esps s)) \<and>
     connections (world s') = connections (world s) @
       [\<lparr>signal = ref m, listener = length (esps s), Connected = True\<rparr>] \<and>
     length (gui (world s')) = length (gui (world s)) + 17 \<and>
     box_lines esp = [length (gui (world s)) + 3 ..< length (gui (world s)) + 7] \<and>
     bone_lines esp = [length (gui (world s)) + 7 ..< length (gui (world s)) + 17] \<and>
     labels esp = \<lparr>container = length (gui (world s)), name = length (gui (world s)) + 1,
       data = length (gui (world s)) + 2\<rparr> \<and>
     constructPoints m = Some (points esp) \<and> constructBones m = Some (bones esp)"
proof -
  from ESP_new_SomeD [OF assms] obtain d pts bns where
    h: "Humanoid m = Some d" "constructPoints m = Some pts" "constructBones m = Some bns"
    by blast
  define n where "n = length (gui (world s))"
  define l where "l = \<lparr>container = n, name = n + 1, data = n + 2\<rparr>"
  define esp where "esp = \<lparr>bin = fold Bin_add (map instance_item ([n + 3 ..< n + 17] @ [n]) @
                 [Function (instances_delete (ref m))]) Bin_new,
               entity = m, humanoid = d, points = pts, bones = bns,
               box_lines = [n + 3 ..< n + 7], bone_lines = [n + 7 ..< n + 17], labels = l\<rparr>"
  define w4 where "w4 = (world s)\<lparr>gui := (gui (world s) @ [Instance_new, Instance_new, Instance_new]) @
                 replicate 14 hidden_line\<rparr>"
  define w5 where "w5 = snd (setLabels l m d Bin_new w4)"
  define w7 where "w7 = w5\<lparr>instances := (instances w5)(ref m \<mapsto> length (esps s)),
                 connections := connections w5 @
                   [\<lparr>signal = ref m, listener = length (esps s), Connected = True\<rparr>]\<rparr>"
  from ESP_new_eq [OF h n_def l_def esp_def w4_def w5_def w7_def, of cy] assms
  have s': "s' = s\<lparr>world := update cy esp w7, esps := esps s @ [esp]\<rparr>" by simp
  have items: "overlay_items esp = map instance_item ([n + 3 ..< n + 17] @ [n]) @
      [Function (instances_delete (ref m))]"
    unfolding overlay_items_def esp_def l_def
    by (simp add: upt_3_17 [symmetric] del: upt_Suc)
  from bin_inv_adds [OF bin_inv_new, of "overlay_items esp"] obtain as where
    inv: "bin_inv (fold Bin_add (overlay_items esp) Bin_new) as"
    and its: "items_of (fold Bin_add (overlay_items esp) Bin_new) as = overlay_items esp"
    by (auto simp: items_of_def)
  have bin: "bin esp = fold Bin_add (overlay_items esp) Bin_new"
    unfolding items by (simp add: esp_def)
  have "overlay_items esp \<noteq> []" by (simp add: overlay_items_def)
  with its have ne: "as \<noteq> []" by (auto simp: items_of_def)
  have len4: "length (gui w4) = n + 17" by (simp add: w4_def n_def)
  have lines: "set (lines_of esp) = insert n {n + 3 ..< n + 17}"
    unfolding lines_of_def esp_def l_def using upt_3_17 [of n]
    by (simp del: upt_Suc) (metis atLeastLessThan_upt set_append)
  have "\<forall>g \<in> set (lines_of esp). length (gui (world s)) \<le> g \<and> g < length (gui (world s'))"
    unfolding lines s' by (simp add: w7_def w5_def len4) (auto simp: n_def)
  moreover have "instances (world s') = (instances (world s))(ref m \<mapsto> length (esps s))"
    and "connections (world s') = connections (world s) @
       [\<lparr>signal = ref m, listener = length (esps s), Connected = True\<rparr>]"
    and "length (gui (world s')) = length (gui (world s)) + 17"
    by (simp_all add: s' w7_def w5_def w4_def)
  moreover have "length (box_lines esp) = 4" "length (bone_lines esp) = 10" "entity esp = m"
    "box_lines esp = [length (gui (world s)) + 3 ..< length (gui (world s)) + 7]"
    "bone_lines esp = [length (gui (world s)) + 7 ..< length (gui (world s)) + 17]"
    "labels esp = \<lparr>container = length (gui (world s)), name = length (gui (world s)) + 1,
       data = length (gui (world s)) + 2\<rparr>"
    "constructPoints m = Some (points esp)" "constructBones m = Some (bones esp)"
    by (simp_all add: esp_def l_def n_def h)
  ultimately show ?thesis
    using inv its ne bin s' by (intro exI [of _ esp]) auto
qed


section \<open>Destroying overlays\<close>

lemma Instance_Destroy_fields [simp]:
  "instances (fst (Instance_Destroy i w)) = instances w"
  "connections (fst (Instance_Destroy i w)) = connections w"
  "cancelled (fst (Instance_Destroy i w)) = cancelled w"
  "length (gui (fst (Instance_Destroy i w))) = length (gui w)"
  "snd (Instance_Destroy i w) = None"
  by (simp_all add: Instance_Destroy_def)

lemma nth_Instance_Destroy:
  "g < length (gui w) \<Longrightarrow>
   gui (fst (Instance_Destroy i w)) ! g =
     (if g = i \<or> Parent (gui w ! g) = Some (Child i) then destroyed_obj (gui w ! g) else gui w ! g)"
  by (simp add: Instance_Destroy_def)

lemma Destroyed_Instance_Destroy:
  "g < length (gui w) \<Longrightarrow> g = i \<or> Destroyed (gui w ! g) \<Longrightarrow>
   Destroyed (gui (fst (Instance_Destroy i w)) ! g)"
  by (auto simp: nth_Instance_Destroy destroyed_obj_def)

lemma release_instances:
  "\<exists>w'. release_all (map instance_item gs @ [Function (instances_delete e)]) w = ([], w', None) \<and>
     instances w' = (instances w)(e := None) \<and> connections w' = connections w \<and>
     cancelled w' = cancelled w \<and> length (gui w') = length (gui w) \<and>
     (\<forall>g < length (gui w). g \<in> set gs \<or> Destroyed (gui w ! g) \<longrightarrow> Destroyed (gui w' ! g))"
proof (induction gs arbitrary: w)
  case Nil
  show ?case by (auto simp: instances_delete_def)
next
  case (Cons a gs)
  let ?w1 = "fst (Instance_Destroy a w)"
  from Cons.IH [of ?w1] obtain w' where
    r: "release_all (map instance_item gs @ [Function (instances_delete e)]) ?w1 = ([], w', None)"
    and f: "instances w' = (instances ?w1)(e := None)" "connections w' = connections ?w1"
      "cancelled w' = cancelled ?w1" "length (gui w') = length (gui ?w1)"
    and D: "\<forall>g < length (gui ?w1). g \<in> set gs \<or> Destroyed (gui ?w1 ! g) \<longrightarrow> Destroyed (gui w' ! g)"
    by blast
  have rel: "release (instance_item a) w = (?w1, None)"
    by (simp add: instance_item_def Instance_Destroy_def)
  have "release_all (map instance_item (a # gs) @ [Function (instances_delete e)]) w = ([], w', None)"
    using r rel by simp
  moreover have "\<forall>g < length (gui w). g \<in> set (a # gs) \<or> Destroyed (gui w ! g) \<longrightarrow> Destroyed (gui w' ! g)"
    using D Destroyed_Instance_Destroy [of _ w a] by auto
  ultimately show ?case using f by (intro exI [of _ w']) simp
qed

lemma ESP_destroy_dead:
  assumes "bin_inv (bin (esps s ! i)) []"
  shows "ESP_destroy i s = Some (s, None)"
proof -
  from assms have "head (bin (esps s ! i)) = None" by (simp add: bin_inv_def)
  then have "Bin_destroy (bin (esps s ! i)) (world s) = Some (bin (esps s ! i), world s, None)"
    by (simp add: Bin_destroy_def destroy_loop.simps)
  then show ?thesis by (simp add: ESP_destroy_def)
qed

lemma ESP_destroy_live:
  assumes inv: "bin_inv (bin (esps s ! i)) as"
    and its: "items_of (bin (esps s ! i)) as = overlay_items (esps s ! i)"
  shows "\<exists>w'. ESP_destroy i s =
       Some (s\<lparr>world := w', esps := (esps s)[i := (esps s ! i)\<lparr>bin := (bin (esps s ! i))\<lparr>head := None\<rparr>\<rparr>]\<rparr>, None) \<and>
     bin_inv ((bin (esps s ! i))\<lparr>head := None\<rparr>) [] \<and>
     instances w' = (instances (world s))(ref (entity (esps s ! i)) := None) \<and>
     connections w' = connections (world s) \<and> cancelled w' = cancelled (world s) \<and>
     length (gui w') = length (gui (world s)) \<and>
     (\<forall>g < length (gui (world s)). g \<in> set (lines_of (esps s ! i)) \<or> Destroyed (gui (world s) ! g) \<longrightarrow>
        Destroyed (gui w' ! g))"
proof -
  let ?o = "esps s ! i"
  from release_instances [of "lines_of ?o" "ref (entity ?o)" "world s"] obtain w' where
    r: "release_all (overlay_items ?o) (world s) = ([], w', None)"
    and f: "instances w' = (instances (world s))(ref (entity ?o) := None)"
      "connections w' = connections (world s)" "cancelled w' = cancelled (world s)"
      "length (gui w') = length (gui (world s))"
      "\<forall>g < length (gui (world s)). g \<in> set (lines_of ?o) \<or> Destroyed (gui (world s) ! g) \<longrightarrow>
        Destroyed (gui w' ! g)"
    unfolding overlay_items_def lines_of_def by blast
  from r its have rel: "release_all (items_of (bin ?o) as) (world s) = ([], w', None)" by simp
  note d = Bin_destroy_inv [OF inv rel]
  from d(1) have "ESP_destroy i s =
       Some (s\<lparr>world := w', esps := (esps s)[i := ?o\<lparr>bin := (bin ?o)\<lparr>head := None\<rparr>\<rparr>]\<rparr>, None)"
    by (simp add: ESP_destroy_def)
  moreover from d(2) have "bin_inv ((bin ?o)\<lparr>head := None\<rparr>) []" by simp
  ultimately show ?thesis using f by (intro exI [of _ w']) simp
qed


lemma overlay_items_bin [simp]: "overlay_items (esp\<lparr>bin := b\<rparr>) = overlay_items esp"
  by (simp add: overlay_items_def)

lemma lines_of_bin [simp]: "lines_of (esp\<lparr>bin := b\<rparr>) = lines_of esp"
  by (simp add: lines_of_def)

lemma ESP_destroy_step:
  assumes ok: "bins_ok s" and i: "i < length (esps s)"
  shows "\<exists>s'. ESP_destroy i s = Some (s', None) \<and> bins_ok s' \<and> same_overlays s s' \<and>
     (\<forall>j < length (esps s). j \<noteq> i \<longrightarrow> esps s' ! j = esps s ! j) \<and>
     isEmpty (bin (esps s' ! i)) \<and>
     connections (world s') = connections (world s) \<and>
     length (gui (world s')) = length (gui (world s)) \<and>
     instances (world s') =
       (if isEmpty (bin (esps s ! i)) then instances (world s)
        else (instances (world s))(ref (entity (esps s ! i)) := None)) \<and>
     (\<forall>g < length (gui (world s)).
        \<not> isEmpty (bin (esps s ! i)) \<and> g \<in> set (lines_of (esps s ! i)) \<or> Destroyed (gui (world s) ! g) \<longrightarrow>
        Destroyed (gui (world s') ! g))"
proof -
  let ?o = "esps s ! i"
  from ok i obtain as where inv: "bin_inv (bin ?o) as"
    and its: "as = [] \<or> items_of (bin ?o) as = overlay_items ?o"
    unfolding bins_ok_def by blast
  show ?thesis
  proof (cases "as = []")
    case True
    with inv have dead: "bin_inv (bin ?o) []" by simp
    then have e: "isEmpty (bin ?o)" by (simp add: bin_inv_isEmpty)
    from ESP_destroy_dead [OF dead] ok e show ?thesis
      by (intro exI [of _ s]) (simp add: same_overlays_def)
  next
    case False
    with its have its': "items_of (bin ?o) as = overlay_items ?o" by simp
    from False inv have live: "\<not> isEmpty (bin ?o)" by (simp add: bin_inv_isEmpty)
    from ESP_destroy_live [OF inv its'] obtain w' where
      run: "ESP_destroy i s =
        Some (s\<lparr>world := w', esps := (esps s)[i := ?o\<lparr>bin := (bin ?o)\<lparr>head := None\<rparr>\<rparr>]\<rparr>, None)"
      and inv': "bin_inv ((bin ?o)\<lparr>head := None\<rparr>) []"
      and f: "instances w' = (instances (world s))(ref (entity ?o) := None)"
        "connections w' = connections (world s)"
        "length (gui w') = length (gui (world s))"
        "\<forall>g < length (gui (world s)). g \<in> set (lines_of ?o) \<or> Destroyed (gui (world s) ! g) \<longrightarrow>
           Destroyed (gui w' ! g)"
      by blast
    let ?s' = "s\<lparr>world := w', esps := (esps s)[i := ?o\<lparr>bin := (bin ?o)\<lparr>head := None\<rparr>\<rparr>]\<rparr>"
    have ok': "bins_ok ?s'"
      unfolding bins_ok_def
    proof (intro allI impI)
      fix j assume "j < length (esps ?s')"
      then have j: "j < length (esps s)" by simp
      show "\<exists>as. bin_inv (bin (esps ?s' ! j)) as \<and>
          (as = [] \<or> items_of (bin (esps ?s' ! j)) as = overlay_items (esps ?s' ! j))"
      proof (cases "j = i")
        case True
        with i inv' show ?thesis by (intro exI [of _ "[]"]) simp
      next
        case False
        with ok j show ?thesis unfolding bins_ok_def by simp
      qed
    qed
    have same: "same_overlays s ?s'"
      using i by (auto simp: same_overlays_def nth_list_update)
    have empty: "isEmpty (bin (esps ?s' ! i))"
      using i by (simp add: isEmpty_def)
    from run ok' same empty f live show ?thesis
      by (intro exI [of _ ?s']) simp
  qed
qed

lemma destroy_each_result:
  assumes "bins_ok s" and "\<forall>i \<in> set is. i < length (esps s) \<and> ref (entity (esps s ! i)) = e"
  shows "\<exists>s'. destroy_each is s = Some s' \<and> bins_ok s' \<and> same_overlays s s' \<and>
     (\<forall>j < length (esps s).
        (j \<notin> set is \<longrightarrow> esps s' ! j = esps s ! j) \<and>
        (j \<in> set is \<or> isEmpty (bin (esps s ! j)) \<longrightarrow> isEmpty (bin (esps s' ! j)))) \<and>
     connections (world s') = connections (world s) \<and>
     length (gui (world s')) = length (gui (world s)) \<and>
     instances (world s') =
       (if \<forall>i \<in> set is. isEmpty (bin (esps s ! i)) then instances (world s)
        else (instances (world s))(e := None))"
  using assms
proof (induction "is" arbitrary: s)
  case Nil
  then show ?case by (intro exI [of _ s]) (simp add: same_overlays_def)
next
  case (Cons i "is")
  from Cons.prems have i: "i < length (esps s)" and ei: "ref (entity (esps s ! i)) = e" by simp_all
  from ESP_destroy_step [OF Cons.prems(1) i] obtain s1 where
    run: "ESP_destroy i s = Some (s1, None)" and ok1: "bins_ok s1" and same1: "same_overlays s s1"
    and other: "\<forall>j < length (esps s). j \<noteq> i \<longrightarrow> esps s1 ! j = esps s ! j"
    and empty: "isEmpty (bin (esps s1 ! i))"
    and f1: "connections (world s1) = connections (world s)"
      "length (gui (world s1)) = length (gui (world s))"
    and inst1: "instances (world s1) =
       (if isEmpty (bin (esps s ! i)) then instances (world s)
        else (instances (world s))(ref (entity (esps s ! i)) := None))"
    by blast
  from same1 have len1: "length (esps s1) = length (esps s)"
    and ent1: "\<forall>j < length (esps s). entity (esps s1 ! j) = entity (esps s ! j)"
    by (simp_all add: same_overlays_def)
  have pre: "\<forall>j \<in> set is. j < length (esps s1) \<and> ref (entity (esps s1 ! j)) = e"
    using Cons.prems(2) len1 ent1 by simp
  from Cons.IH [OF ok1 pre] obtain s' where
    run': "destroy_each is s1 = Some s'" and ok': "bins_ok s'" and same': "same_overlays s1 s'"
    and rest: "\<forall>j < length (esps s1).
        (j \<notin> set is \<longrightarrow> esps s' ! j = esps s1 ! j) \<and>
        (j \<in> set is \<or> isEmpty (bin (esps s1 ! j)) \<longrightarrow> isEmpty (bin (esps s' ! j)))"
    and f': "connections (world s') = connections (world s1)"
      "length (gui (world s')) = length (gui (world s1))"
    and inst': "instances (world s') =
       (if \<forall>i \<in> set is. isEmpty (bin (esps s1 ! i)) then instances (world s1)
        else (instances (world s1))(e := None))"
    by blast
  have keep: "isEmpty (bin (esps s ! j)) \<Longrightarrow> isEmpty (bin (esps s1 ! j))" if "j < length (esps s)" for j
    using that other empty by (cases "j = i") auto
  have same: "same_overlays s s'"
    using same1 same' by (simp add: same_overlays_def)
  have frame: "\<forall>j < length (esps s).
        (j \<notin> set (i # is) \<longrightarrow> esps s' ! j = esps s ! j) \<and>
        (j \<in> set (i # is) \<or> isEmpty (bin (esps s ! j)) \<longrightarrow> isEmpty (bin (esps s' ! j)))"
    using rest other empty keep len1 i by auto
  have live_eq: "(\<forall>j \<in> set is. isEmpty (bin (esps s1 ! j))) \<longleftrightarrow>
      (\<forall>j \<in> set is. j = i \<or> isEmpty (bin (esps s ! j)))"
    using other empty Cons.prems(2) by (metis list.set_intros(2))
  have inst: "instances (world s') =
       (if \<forall>j \<in> set (i # is). isEmpty (bin (esps s ! j)) then instances (world s)
        else (instances (world s))(e := None))"
    unfolding inst' inst1 live_eq ei by (cases "isEmpty (bin (esps s ! i))") auto
  from run run' have "destroy_each (i # is) s = Some s'" by simp
  with ok' same frame f1 f' inst show ?case
    by (intro exI [of _ s']) simp
qed


section \<open>Reachable states\<close>

lemma Inv_start: "Inv start"
  by (simp add: Inv_def start_def bins_ok_def)

lemma Inv_world:
  assumes "Inv s" and "esps s' = esps s" and "instances (world s') = instances (world s)"
    and "connections (world s') = connections (world s)"
    and "length (gui (world s')) = length (gui (world s))"
  shows "Inv s'"
  using assms unfolding Inv_def bins_ok_def by simp

lemma render_each_fields:
  "render_each cam rd es is w = (called, w', r) \<Longrightarrow>
   instances w' = instances w \<and> connections w' = connections w \<and>
   length (gui w') = length (gui w)"
proof (induction "is" arbitrary: w called w' r)
  case Nil
  then show ?case by simp
next
  case (Cons i "is")
  obtain w1 e1 where r1: "render cam (rd i) (es ! i) w = (w1, e1)"
    by (cases "render cam (rd i) (es ! i) w")
  from render_fields [of cam "rd i" "es ! i" w] r1
  have f1: "instances w1 = instances w" "connections w1 = connections w"
    "length (gui w1) = length (gui w)" by simp_all
  show ?case
  proof (cases e1)
    case (Some err)
    with Cons.prems r1 f1 show ?thesis by auto
  next
    case None
    obtain c2 w2 r2 where r2: "render_each cam rd es is w1 = (c2, w2, r2)"
      by (cases "render_each cam rd es is w1") auto
    from Cons.IH [OF r2] f1 Cons.prems r1 None r2 show ?thesis by auto
  qed
qed

lemma RenderStepped_result:
  assumes "RenderStepped cam rd order s = (called, s', r)"
  shows "esps s' = esps s" and "instances (world s') = instances (world s)"
    and "connections (world s') = connections (world s)"
    and "length (gui (world s')) = length (gui (world s))"
proof -
  obtain c w' r' where re:
    "render_each cam rd (esps s) (List.map_filter (instances (world s)) order) (world s) = (c, w', r')"
    by (cases "render_each cam rd (esps s) (List.map_filter (instances (world s)) order) (world s)") auto
  with assms have s': "s' = s\<lparr>world := w'\<rparr>" by (simp add: RenderStepped_def)
  from render_each_fields [OF re]
  show "esps s' = esps s" and "instances (world s') = instances (world s)"
    and "connections (world s') = connections (world s)"
    and "length (gui (world s')) = length (gui (world s))"
    by (simp_all add: s')
qed

lemma Inv_frame:
  assumes "Inv s" and "RenderStepped cam rd order s = (called, s', r)"
  shows "Inv s'"
  using RenderStepped_result [OF assms(2)] by (intro Inv_world [OF assms(1)])

text \<open>
  When the \<open>AncestryChanged\<close> of entity \<open>e\<close> fires with no parent, every overlay made
  for \<open>e\<close> so far is destroyed, the registry loses its entry for \<open>e\<close>, and nothing else
  changes in the registry or in the other overlays.
\<close>

lemma AncestryChanged_result:
  assumes inv: "Inv s"
  shows "\<exists>s'. AncestryChanged e True s = Some s' \<and> Inv s' \<and>
     instances (world s') = (instances (world s))(e := None) \<and>
     length (esps s') = length (esps s) \<and>
     (\<forall>j < length (esps s).
        (ref (entity (esps s ! j)) = e \<longrightarrow> isEmpty (bin (esps s' ! j))) \<and>
        (ref (entity (esps s ! j)) \<noteq> e \<longrightarrow> esps s' ! j = esps s ! j))"
proof -
  let ?hs = "handlers e (world s)"
  from inv have ok: "bins_ok s"
    and reg: "\<And>e i. instances (world s) e = Some i \<Longrightarrow>
        i < length (esps s) \<and> ref (entity (esps s ! i)) = e \<and> \<not> isEmpty (bin (esps s ! i))"
    and ov: "\<And>i. i < length (esps s) \<Longrightarrow>
        length (box_lines (esps s ! i)) = 4 \<and> length (bone_lines (esps s ! i)) = 10 \<and>
        (\<forall>g \<in> set (lines_of (esps s ! i)). g < length (gui (world s))) \<and>
        constructPoints (entity (esps s ! i)) = Some (points (esps s ! i)) \<and>
        constructBones (entity (esps s ! i)) = Some (bones (esps s ! i)) \<and>
        \<lparr>signal = ref (entity (esps s ! i)), listener = i, Connected = True\<rparr>
          \<in> set (connections (world s))"
    and conn: "\<And>c. c \<in> set (connections (world s)) \<Longrightarrow>
        listener c < length (esps s) \<and> signal c = ref (entity (esps s ! listener c))"
    unfolding Inv_def by blast+
  have hs: "\<forall>i \<in> set ?hs. i < length (esps s) \<and> ref (entity (esps s ! i)) = e"
    using conn by (auto simp: handlers_def)
  have all: "i \<in> set ?hs" if "i < length (esps s)" "ref (entity (esps s ! i)) = e" for i
  proof -
    from ov [OF that(1)] that(2)
    have "\<lparr>signal = e, listener = i, Connected = True\<rparr> \<in> set (connections (world s))" by simp
    then show ?thesis unfolding handlers_def by force
  qed
  from destroy_each_result [OF ok hs] obtain s' where
    run: "destroy_each ?hs s = Some s'"
    and ok': "bins_ok s'" and same: "same_overlays s s'"
    and frame: "\<And>j. j < length (esps s) \<Longrightarrow>
        (j \<notin> set ?hs \<longrightarrow> esps s' ! j = esps s ! j) \<and>
        (j \<in> set ?hs \<or> isEmpty (bin (esps s ! j)) \<longrightarrow> isEmpty (bin (esps s' ! j)))"
    and f: "connections (world s') = connections (world s)"
      "length (gui (world s')) = length (gui (world s))"
    and inst: "instances (world s') =
       (if \<forall>i \<in> set ?hs. isEmpty (bin (esps s ! i)) then instances (world s)
        else (instances (world s))(e := None))"
    by blast
  from same have len: "length (esps s') = length (esps s)"
    and keep: "\<And>j. j < length (esps s) \<Longrightarrow>
        entity (esps s' ! j) = entity (esps s ! j) \<and>
        box_lines (esps s' ! j) = box_lines (esps s ! j) \<and>
        bone_lines (esps s' ! j) = bone_lines (esps s ! j) \<and>
        labels (esps s' ! j) = labels (esps s ! j) \<and>
        points (esps s' ! j) = points (esps s ! j) \<and>
        bones (esps s' ! j) = bones (esps s ! j)"
    by (simp_all add: same_overlays_def)
  have lines: "lines_of (esps s' ! j) = lines_of (esps s ! j)" if "j < length (esps s)" for j
    using keep [OF that] by (simp add: lines_of_def)
  have gone: "instances (world s) e = None" if "\<forall>i \<in> set ?hs. isEmpty (bin (esps s ! i))"
  proof (rule ccontr)
    assume "instances (world s) e \<noteq> None"
    then obtain i where i: "instances (world s) e = Some i" by blast
    from reg [OF i] all [of i] that show False by blast
  qed
  have inst': "instances (world s') = (instances (world s))(e := None)"
    unfolding inst using gone by auto
  have "i < length (esps s') \<and> ref (entity (esps s' ! i)) = e' \<and> \<not> isEmpty (bin (esps s' ! i))"
    if "instances (world s') e' = Some i" for e' i
  proof -
    from that inst' have ne: "e' \<noteq> e" and i: "instances (world s) e' = Some i"
      by (auto split: if_splits)
    from reg [OF i] have il: "i < length (esps s)" and ei: "ref (entity (esps s ! i)) = e'"
      and live: "\<not> isEmpty (bin (esps s ! i))" by simp_all
    from ei ne hs have "i \<notin> set ?hs" by auto
    with frame [OF il] have "esps s' ! i = esps s ! i" by simp
    with il ei live len show ?thesis by simp
  qed
  moreover have "length (box_lines (esps s' ! i)) = 4 \<and> length (bone_lines (esps s' ! i)) = 10 \<and>
        (\<forall>g \<in> set (lines_of (esps s' ! i)). g < length (gui (world s'))) \<and>
        constructPoints (entity (esps s' ! i)) = Some (points (esps s' ! i)) \<and>
        constructBones (entity (esps s' ! i)) = Some (bones (esps s' ! i)) \<and>
        \<lparr>signal = ref (entity (esps s' ! i)), listener = i, Connected = True\<rparr>
          \<in> set (connections (world s'))"
    if "i < length (esps s')" for i
  proof -
    from that len have il: "i < length (esps s)" by simp
    with ov [OF il] keep [OF il] lines [OF il] f show ?thesis by simp
  qed
  moreover have "listener c < length (esps s') \<and> signal c = ref (entity (esps s' ! listener c))"
    if "c \<in> set (connections (world s'))" for c
    using that conn [of c] keep [of "listener c"] f len by simp
  ultimately have inv': "Inv s'"
    unfolding Inv_def using ok' by blast
  have "(ref (entity (esps s ! j)) = e \<longrightarrow> isEmpty (bin (esps s' ! j))) \<and>
        (ref (entity (esps s ! j)) \<noteq> e \<longrightarrow> esps s' ! j = esps s ! j)"
    if j: "j < length (esps s)" for j
    using frame [OF j] all [OF j] hs by auto
  with run inv' inst' len show ?thesis
    by (intro exI [of _ s']) (simp add: AncestryChanged_def)
qed

lemma Inv_left:
  assumes "Inv s" and "AncestryChanged e True s = Some s'"
  shows "Inv s'"
  using AncestryChanged_result [OF assms(1), of e] assms(2) by auto

text \<open>
  When a constructor returns, the new overlay is the last one, it has not been
  destroyed and it is the registry's entry for its entity; the overlays that were
  there are as they were.
\<close>

lemma Inv_returned:
  assumes inv: "Inv s" and run: "ESP_new cy m s = Some s'"
  shows "Inv s'"
proof -
  from inv have ok: "bins_ok s"
    and reg: "\<And>e i. instances (world s) e = Some i \<Longrightarrow>
        i < length (esps s) \<and> ref (entity (esps s ! i)) = e \<and> \<not> isEmpty (bin (esps s ! i))"
    and ov: "\<And>i. i < length (esps s) \<Longrightarrow>
        length (box_lines (esps s ! i)) = 4 \<and> length (bone_lines (esps s ! i)) = 10 \<and>
        (\<forall>g \<in> set (lines_of (esps s ! i)). g < length (gui (world s))) \<and>
        constructPoints (entity (esps s ! i)) = Some (points (esps s ! i)) \<and>
        constructBones (entity (esps s ! i)) = Some (bones (esps s ! i)) \<and>
        \<lparr>signal = ref (entity (esps s ! i)), listener = i, Connected = True\<rparr>
          \<in> set (connections (world s))"
    and conn: "\<And>c. c \<in> set (connections (world s)) \<Longrightarrow>
        listener c < length (esps s) \<and> signal c = ref (entity (esps s ! listener c))"
    unfolding Inv_def by blast+
  from ESP_new_facts [OF run] obtain esp as where
    es: "esps s' = esps s @ [esp]" and ent: "entity esp = m"
    and cnt: "length (box_lines esp) = 4" "length (bone_lines esp) = 10"
    and lines: "\<forall>g \<in> set (lines_of esp). length (gui (world s)) \<le> g \<and> g < length (gui (world s'))"
    and b: "as \<noteq> []" "bin_inv (bin esp) as" "items_of (bin esp) as = overlay_items esp"
    and inst: "instances (world s') = (instances (world s))(ref m \<mapsto> length (esps s))"
    and cs: "connections (world s') = connections (world s) @
       [\<lparr>signal = ref m, listener = length (esps s), Connected = True\<rparr>]"
    and gl: "length (gui (world s')) = length (gui (world s)) + 17"
    and rig: "constructPoints m = Some (points esp)" "constructBones m = Some (bones esp)"
    by blast
  from b have live: "\<not> isEmpty (bin esp)" by (simp add: bin_inv_isEmpty)
  have nth: "esps s' ! i = (if i < length (esps s) then esps s ! i else esp)"
    if "i < length (esps s')" for i
    using that es by (auto simp: nth_append)
  have ok': "bins_ok s'"
    unfolding bins_ok_def
  proof (intro allI impI)
    fix i assume i: "i < length (esps s')"
    show "\<exists>as. bin_inv (bin (esps s' ! i)) as \<and>
        (as = [] \<or> items_of (bin (esps s' ! i)) as = overlay_items (esps s' ! i))"
    proof (cases "i < length (esps s)")
      case True
      with ok nth [OF i] show ?thesis unfolding bins_ok_def by simp
    next
      case False
      with nth [OF i] b show ?thesis by auto
    qed
  qed
  have "i < length (esps s') \<and> ref (entity (esps s' ! i)) = e \<and> \<not> isEmpty (bin (esps s' ! i))"
    if "instances (world s') e = Some i" for e i
  proof (cases "e = ref m")
    case True
    with that inst have "i = length (esps s)" by simp
    with es ent live True show ?thesis by simp
  next
    case False
    with that inst have "instances (world s) e = Some i" by simp
    from reg [OF this] es show ?thesis by (simp add: nth_append)
  qed
  moreover have "length (box_lines (esps s' ! i)) = 4 \<and> length (bone_lines (esps s' ! i)) = 10 \<and>
        (\<forall>g \<in> set (lines_of (esps s' ! i)). g < length (gui (world s'))) \<and>
        constructPoints (entity (esps s' ! i)) = Some (points (esps s' ! i)) \<and>
        constructBones (entity (esps s' ! i)) = Some (bones (esps s' ! i)) \<and>
        \<lparr>signal = ref (entity (esps s' ! i)), listener = i, Connected = True\<rparr>
          \<in> set (connections (world s'))"
    if i: "i < length (esps s')" for i
  proof (cases "i < length (esps s)")
    case True
    with ov [OF True] nth [OF i] gl cs show ?thesis by auto
  next
    case False
    with i es have "i = length (esps s)" by simp
    with nth [OF i] cnt lines ent cs rig show ?thesis by simp
  qed
  moreover have "listener c < length (esps s') \<and> signal c = ref (entity (esps s' ! listener c))"
    if "c \<in> set (connections (world s'))" for c
  proof (cases "c \<in> set (connections (world s))")
    case True
    from conn [OF True] es show ?thesis by (simp add: nth_append)
  next
    case False
    with that cs have "c = \<lparr>signal = ref m, listener = length (esps s), Connected = True\<rparr>" by simp
    with es ent show ?thesis by simp
  qed
  ultimately show ?thesis
    unfolding Inv_def using ok' by blast
qed

lemma reachable_Inv: "reachable s P Q \<Longrightarrow> Inv s"
proof (induction rule: reachable.induct)
  case init
  show ?case by (rule Inv_start)
next
  case (entered s P Q m)
  then show ?case by simp
next
  case (returned s P Q m content_y s')
  then show ?case by (auto intro: Inv_returned)
next
  case (left s P Q e s')
  then show ?case by (auto intro: Inv_left)
next
  case (moved s P Q e s')
  then show ?case by (simp add: AncestryChanged_def)
next
  case (frame s P Q cam rd order called s' r)
  then show ?case by (auto intro: Inv_frame)
qed


section \<open>The example states\<close>

lemma r6_parts:
  "Humanoid (r6 k) = Some ''Dummy''" "constructPoints (r6 k) \<noteq> None" "constructBones (r6 k) \<noteq> None"
  "ref (r6 k) = k"
  by (simp_all add: r6_def constructPoints_def constructBones_def WaitForChild_def Let_def)

lemma ESP_new_r6: "ESP_new cy (r6 k) s = Some (the (ESP_new cy (r6 k) s))"
proof -
  from r6_parts [of k] obtain pts bns where
    "constructPoints (r6 k) = Some pts" "constructBones (r6 k) = Some bns" by auto
  from ESP_new_eq [OF r6_parts(1) this refl refl refl refl refl refl, of cy s]
  show ?thesis by simp
qed

lemma one_overlay_run: "ESP_new 24 (r6 1) start = Some one_overlay"
  unfolding one_overlay_def by (rule ESP_new_r6)

lemma one_overlay_facts:
  "length (esps one_overlay) = 1"
  "entity (esps one_overlay ! 0) = r6 1"
  "box_lines (esps one_overlay ! 0) = [3, 4, 5, 6]"
  "bone_lines (esps one_overlay ! 0) = [7, 8, 9, 10, 11, 12, 13, 14, 15, 16]"
  "labels (esps one_overlay ! 0) = \<lparr>container = 0, name = 1, data = 2\<rparr>"
  "\<not> isEmpty (bin (esps one_overlay ! 0))"
  "instances (world one_overlay) = [1 \<mapsto> 0]"
  "connections (world one_overlay) = [\<lparr>signal = 1, listener = 0, Connected = True\<rparr>]"
  "length (gui (world one_overlay)) = 17"
  "constructPoints (r6 1) = Some (points (esps one_overlay ! 0))"
proof -
  from ESP_new_facts [OF one_overlay_run] obtain esp as where
    f: "esps one_overlay = esps start @ [esp]" "entity esp = r6 1"
    "as \<noteq> []" "bin_inv (bin esp) as"
    "instances (world one_overlay) = (instances (world start))(ref (r6 1) \<mapsto> length (esps start))"
    "connections (world one_overlay) = connections (world start) @
       [\<lparr>signal = ref (r6 1), listener = length (esps start), Connected = True\<rparr>]"
    "length (gui (world one_overlay)) = length (gui (world start)) + 17"
    "box_lines esp = [length (gui (world start)) + 3 ..< length (gui (world start)) + 7]"
    "bone_lines esp = [length (gui (world start)) + 7 ..< length (gui (world start)) + 17]"
    "labels esp = \<lparr>container = length (gui (world start)), name = length (gui (world start)) + 1,
       data = length (gui (world start)) + 2\<rparr>"
    "constructPoints (r6 1) = Some (points esp)"
    by blast
  have st: "esps start = []" "gui (world start) = []" "instances (world start) = Map.empty"
    "connections (world start) = []" by (simp_all add: start_def)
  from f(3,4) have live: "\<not> isEmpty (bin esp)" by (simp add: bin_inv_isEmpty)
  have u1: "[3 ..< 7] = [3, 4, 5, 6::nat]" by (simp add: upt_rec)
  have u2: "[7 ..< 17] = [7, 8, 9, 10, 11, 12, 13, 14, 15, 16::nat]" by (simp add: upt_rec)
  show "length (esps one_overlay) = 1"
  "entity (esps one_overlay ! 0) = r6 1"
  "box_lines (esps one_overlay ! 0) = [3, 4, 5, 6]"
  "bone_lines (esps one_overlay ! 0) = [7, 8, 9, 10, 11, 12, 13, 14, 15, 16]"
  "labels (esps one_overlay ! 0) = \<lparr>container = 0, name = 1, data = 2\<rparr>"
  "\<not> isEmpty (bin (esps one_overlay ! 0))"
  "instances (world one_overlay) = [1 \<mapsto> 0]"
  "connections (world one_overlay) = [\<lparr>signal = 1, listener = 0, Connected = True\<rparr>]"
  "length (gui (world one_overlay)) = 17"
  "constructPoints (r6 1) = Some (points (esps one_overlay ! 0))"
    using f live by (simp_all add: st r6_parts u1 u2)
qed

lemma waiting_reachable: "reachable start {1} [r6 1]"
  using reachable.entered [OF reachable.init, of "r6 1"] by (simp add: r6_parts)

lemma one_overlay_reachable: "reachable one_overlay {1} []"
  using reachable.returned [OF waiting_reachable _ one_overlay_run] by simp

text \<open>The same state is reached when the entity leaves while its constructor waits.\<close>

lemma one_overlay_late: "reachable one_overlay {} []"
proof -
  have "AncestryChanged 1 True start = Some start"
    by (simp add: AncestryChanged_def handlers_def start_def)
  from reachable.left [OF waiting_reachable this] have "reachable start {} [r6 1]" by simp
  from reachable.returned [OF this _ one_overlay_run] show ?thesis by simp
qed

lemma second_overlay_facts:
  assumes "s2 = the (ESP_new 24 (r6 k) one_overlay)"
  shows "ESP_new 24 (r6 k) one_overlay = Some s2"
    and "length (esps s2) = 2"
    and "esps s2 ! 0 = esps one_overlay ! 0"
    and "entity (esps s2 ! 1) = r6 k"
    and "\<not> isEmpty (bin (esps s2 ! 1))"
    and "instances (world s2) = [1 \<mapsto> 0, k \<mapsto> 1]"
    and "reachable s2 (insert k {1}) []"
proof -
  show run: "ESP_new 24 (r6 k) one_overlay = Some s2"
    unfolding assms by (rule ESP_new_r6)
  from ESP_new_facts [OF run] obtain esp as where
    f: "esps s2 = esps one_overlay @ [esp]" "entity esp = r6 k"
    "as \<noteq> []" "bin_inv (bin esp) as"
    "instances (world s2) = (instances (world one_overlay))(ref (r6 k) \<mapsto> length (esps one_overlay))"
    by blast
  from f(3,4) have live: "\<not> isEmpty (bin esp)" by (simp add: bin_inv_isEmpty)
  from f live one_overlay_facts(1)
  show "length (esps s2) = 2" "esps s2 ! 0 = esps one_overlay ! 0" "entity (esps s2 ! 1) = r6 k"
    "\<not> isEmpty (bin (esps s2 ! 1))"
    by (simp_all add: nth_append)
  from f(5) show "instances (world s2) = [1 \<mapsto> 0, k \<mapsto> 1]"
    by (simp add: one_overlay_facts r6_parts)
  from reachable.entered [OF one_overlay_reachable, of "r6 k"]
  have "reachable one_overlay (insert k {1}) [r6 k]" by (simp add: r6_parts)
  from reachable.returned [OF this _ run]
  show "reachable s2 (insert k {1}) []" by simp
qed

lemma after_destroy_run: "ESP_destroy 0 one_overlay = Some (after_destroy, None)"
proof -
  from reachable_Inv [OF one_overlay_reachable] have "bins_ok one_overlay"
    by (simp add: Inv_def)
  from ESP_destroy_step [OF this, of 0] obtain s' where
    "ESP_destroy 0 one_overlay = Some (s', None)"
    by (auto simp: one_overlay_facts)
  then show ?thesis by (simp add: after_destroy_def)
qed



section \<open>Overlays: rendering and life cycle\<close>

text \<open>Every overlay of a reachable state has the rig that the constructor builds.\<close>

lemma reachable_rig:
  assumes "reachable s P Q" and "i < length (esps s)"
  shows "constructPoints (entity (esps s ! i)) = Some (points (esps s ! i))"
    and "constructBones (entity (esps s ! i)) = Some (bones (esps s ! i))"
  using reachable_Inv [OF assms(1)] assms(2) unfolding Inv_def by blast+








text \<open>
  Claim C3, as the code has it. For every overlay of a reachable state that has not
  been destroyed, \<open>destroy\<close> returns, and then the registry has no entry for the
  overlay's entity, its 4 box lines, its 10 bone lines and the container of its label
  are destroyed, and its Bin is empty. The connection of its handler to the entity's
  \<open>AncestryChanged\<close> is not in the Bin: \<open>destroy\<close> leaves every connection as it was,
  and that one connected.
\<close>

theorem destroy_releases_overlay:
  assumes "reachable s P Q" and "i < length (esps s)" and "\<not> isEmpty (bin (esps s ! i))"
  shows "\<exists>s'. ESP_destroy i s = Some (s', None) \<and>
     instances (world s') (ref (entity (esps s ! i))) = None \<and>
     length (box_lines (esps s ! i)) = 4 \<and> length (bone_lines (esps s ! i)) = 10 \<and>
     (\<forall>g \<in> set (box_lines (esps s ! i) @ bone_lines (esps s ! i) @ [container (labels (esps s ! i))]).
        Destroyed (gui (world s') ! g)) \<and>
     isEmpty (bin (esps s' ! i)) \<and>
     connections (world s') = connections (world s) \<and>
     \<lparr>signal = ref (entity (esps s ! i)), listener = i, Connected = True\<rparr>
       \<in> set (connections (world s'))"
proof -
  from reachable_Inv [OF assms(1)] have ok: "bins_ok s"
    and ov: "length (box_lines (esps s ! i)) = 4 \<and> length (bone_lines (esps s ! i)) = 10 \<and>
        (\<forall>g \<in> set (lines_of (esps s ! i)). g < length (gui (world s))) \<and>
        \<lparr>signal = ref (entity (esps s ! i)), listener = i, Connected = True\<rparr>
          \<in> set (connections (world s))"
    using assms(2) unfolding Inv_def by auto
  from ESP_destroy_step [OF ok assms(2)] assms(3) obtain s' where
    run: "ESP_destroy i s = Some (s', None)"
    and empty: "isEmpty (bin (esps s' ! i))"
    and cs: "connections (world s') = connections (world s)"
    and inst: "instances (world s') = (instances (world s))(ref (entity (esps s ! i)) := None)"
    and D: "\<forall>g < length (gui (world s)). g \<in> set (lines_of (esps s ! i)) \<longrightarrow>
        Destroyed (gui (world s') ! g)"
    by auto
  from D ov have "\<forall>g \<in> set (lines_of (esps s ! i)). Destroyed (gui (world s') ! g)" by blast
  then have "\<forall>g \<in> set (box_lines (esps s ! i) @ bone_lines (esps s ! i) @
      [container (labels (esps s ! i))]). Destroyed (gui (world s') ! g)"
    by (simp add: lines_of_def)
  with run empty cs inst ov show ?thesis
    by (intro exI [of _ s']) simp
qed

theorem destroy_releases_overlay_witness:
  "reachable one_overlay {1} [] \<and> 0 < length (esps one_overlay) \<and>
   \<not> isEmpty (bin (esps one_overlay ! 0)) \<and>
   (\<exists>s'. ESP_destroy 0 one_overlay = Some (s', None) \<and>
     instances (world s') 1 = None \<and>
     (\<forall>g \<in> {0, 3, 4, 5, 6, 7, 8, 9, 10, 11, 12, 13, 14, 15, 16}. Destroyed (gui (world s') ! g)) \<and>
     isEmpty (bin (esps s' ! 0)) \<and>
     connections (world s') = [\<lparr>signal = 1, listener = 0, Connected = True\<rparr>])"
proof -
  have h: "0 < length (esps one_overlay)" "\<not> isEmpty (bin (esps one_overlay ! 0))"
    by (simp_all add: one_overlay_facts)
  from destroy_releases_overlay [OF one_overlay_reachable h] obtain s' where
    "ESP_destroy 0 one_overlay = Some (s', None)"
    "instances (world s') (ref (entity (esps one_overlay ! 0))) = None"
    "\<forall>g \<in> set (box_lines (esps one_overlay ! 0) @ bone_lines (esps one_overlay ! 0) @
       [container (labels (esps one_overlay ! 0))]). Destroyed (gui (world s') ! g)"
    "isEmpty (bin (esps s' ! 0))"
    "connections (world s') = connections (world one_overlay)"
    by blast
  then have "ESP_destroy 0 one_overlay = Some (s', None) \<and>
     instances (world s') 1 = None \<and>
     (\<forall>g \<in> {0, 3, 4, 5, 6, 7, 8, 9, 10, 11, 12, 13, 14, 15, 16}. Destroyed (gui (world s') ! g)) \<and>
     isEmpty (bin (esps s' ! 0)) \<and>
     connections (world s') = [\<lparr>signal = 1, listener = 0, Connected = True\<rparr>]"
    by (simp add: one_overlay_facts r6_parts)
  with one_overlay_reachable h show ?thesis by blast
qed

text \<open>
  The claim as it was stated fails for the subscription: after \<open>destroy\<close> on the one
  overlay of \<open>one_overlay\<close>, its handler is still connected.
\<close>

theorem connection_outlives_destroy:
  "ESP_destroy 0 one_overlay = Some (after_destroy, None) \<and>
   isEmpty (bin (esps after_destroy ! 0)) \<and>
   connections (world one_overlay) = [\<lparr>signal = 1, listener = 0, Connected = True\<rparr>] \<and>
   connections (world after_destroy) = [\<lparr>signal = 1, listener = 0, Connected = True\<rparr>]"
proof -
  have h: "0 < length (esps one_overlay)" "\<not> isEmpty (bin (esps one_overlay ! 0))"
    by (simp_all add: one_overlay_facts)
  from reachable_Inv [OF one_overlay_reachable] have ok: "bins_ok one_overlay"
    by (simp add: Inv_def)
  from ESP_destroy_step [OF ok h(1)] after_destroy_run
  have "isEmpty (bin (esps after_destroy ! 0))"
    "connections (world after_destroy) = connections (world one_overlay)"
    by auto
  with after_destroy_run show ?thesis by (simp add: one_overlay_facts)
qed




text \<open>
  An entity that is in the world and has no constructor waiting has an entry in the
  registry.
\<close>

lemma present_registered:
  assumes "reachable s P Q"
  shows "\<forall>e \<in> P. (\<forall>m \<in> set Q. ref m \<noteq> e) \<longrightarrow> instances (world s) e \<noteq> None"
  using assms
proof (induction rule: reachable.induct)
  case init
  show ?case by simp
next
  case (entered s P Q m)
  then show ?case by auto
next
  case (returned s P Q m content_y s')
  from ESP_new_facts [OF returned.hyps(3)]
  have inst: "instances (world s') = (instances (world s))(ref m \<mapsto> length (esps s))" by blast
  show ?case
  proof (intro ballI impI)
    fix e assume e: "e \<in> P" and q: "\<forall>m' \<in> set (remove1 m Q). ref m' \<noteq> e"
    show "instances (world s') e \<noteq> None"
    proof (cases "ref m = e")
      case True
      then show ?thesis by (simp add: inst)
    next
      case False
      have "\<forall>m' \<in> set Q. ref m' \<noteq> e"
      proof
        fix m' assume m': "m' \<in> set Q"
        show "ref m' \<noteq> e"
        proof (cases "m' = m")
          case True
          with False show ?thesis by simp
        next
          case False
          with m' have "m' \<in> set (remove1 m Q)" by simp
          with q show ?thesis by blast
        qed
      qed
      with returned.IH e have "instances (world s) e \<noteq> None" by blast
      with False show ?thesis by (simp add: inst)
    qed
  qed
next
  case (left s P Q e s')
  from AncestryChanged_result [OF reachable_Inv [OF left.hyps(1)], of e] left.hyps(2)
  have "instances (world s') = (instances (world s))(e := None)" by auto
  with left.IH show ?case by auto
next
  case (moved s P Q e s')
  then show ?case by (simp add: AncestryChanged_def)
next
  case (frame s P Q cam rd order called s' r)
  from RenderStepped_result(2) [OF frame.hyps(2)] frame.IH show ?case by simp
qed

text \<open>
  Claim C8, as the code has it. In every reachable state, every entry of the registry
  refers to an overlay made for that entity and not destroyed, and no overlay is the
  entry of two entities; an entity that is in the world and has no constructor
  waiting has an entry. \<open>new ESP\<close> for an entity makes the new overlay the entry of
  the entity, whether it had one or not, and leaves every earlier overlay as it was:
  an earlier overlay of the same entity stays undestroyed beside the registry. It
  stays so through every frame, every \<open>new ESP\<close> and every removal of another entity;
  when its own entity is removed from the world, every overlay made for that entity
  is destroyed and the entry of the entity is gone. An entry does not mean that the
  entity is in the world: the constructor enters the overlay when its waits are
  over, also when the entity has left in the meantime, and the entry stays until the
  \<open>AncestryChanged\<close> of the entity fires once more with no parent.
\<close>

theorem registry_invariant:
  assumes "reachable s P Q"
  shows "(\<forall>e i. instances (world s) e = Some i \<longrightarrow>
        i < length (esps s) \<and> ref (entity (esps s ! i)) = e \<and> \<not> isEmpty (bin (esps s ! i))) \<and>
     (\<forall>e e' i. instances (world s) e = Some i \<and> instances (world s) e' = Some i \<longrightarrow> e = e') \<and>
     (\<forall>e \<in> P. (\<forall>m \<in> set Q. ref m \<noteq> e) \<longrightarrow> instances (world s) e \<noteq> None) \<and>
     (\<forall>cy m s'. ESP_new cy m s = Some s' \<longrightarrow>
        length (esps s') = length (esps s) + 1 \<and>
        (\<forall>j < length (esps s). esps s' ! j = esps s ! j) \<and>
        entity (esps s' ! length (esps s)) = m \<and>
        \<not> isEmpty (bin (esps s' ! length (esps s))) \<and>
        instances (world s') = (instances (world s))(ref m \<mapsto> length (esps s))) \<and>
     (\<forall>e. \<exists>s'. AncestryChanged e True s = Some s' \<and>
        instances (world s') = (instances (world s))(e := None) \<and>
        length (esps s') = length (esps s) \<and>
        (\<forall>j < length (esps s).
           (ref (entity (esps s ! j)) = e \<longrightarrow> isEmpty (bin (esps s' ! j))) \<and>
           (ref (entity (esps s ! j)) \<noteq> e \<longrightarrow> esps s' ! j = esps s ! j))) \<and>
     (\<forall>cam rd order.
        esps (fst (snd (RenderStepped cam rd order s))) = esps s \<and>
        instances (world (fst (snd (RenderStepped cam rd order s)))) = instances (world s))"
proof -
  note inv = reachable_Inv [OF assms]
  from inv have reg: "\<forall>e i. instances (world s) e = Some i \<longrightarrow>
        i < length (esps s) \<and> ref (entity (esps s ! i)) = e \<and> \<not> isEmpty (bin (esps s ! i))"
    unfolding Inv_def by blast
  from reg have inj:
    "\<forall>e e' i. instances (world s) e = Some i \<and> instances (world s) e' = Some i \<longrightarrow> e = e'"
    by blast
  have new: "length (esps s') = length (esps s) + 1 \<and>
        (\<forall>j < length (esps s). esps s' ! j = esps s ! j) \<and>
        entity (esps s' ! length (esps s)) = m \<and>
        \<not> isEmpty (bin (esps s' ! length (esps s))) \<and>
        instances (world s') = (instances (world s))(ref m \<mapsto> length (esps s))"
    if run: "ESP_new cy m s = Some s'" for cy m s'
  proof -
    from ESP_new_facts [OF run] obtain esp as where
      f: "esps s' = esps s @ [esp]" "entity esp = m" "as \<noteq> []" "bin_inv (bin esp) as"
      "instances (world s') = (instances (world s))(ref m \<mapsto> length (esps s))"
      by blast
    from f(3,4) have "\<not> isEmpty (bin esp)" by (simp add: bin_inv_isEmpty)
    with f show ?thesis by (simp add: nth_append)
  qed
  have gone: "\<exists>s'. AncestryChanged e True s = Some s' \<and>
        instances (world s') = (instances (world s))(e := None) \<and>
        length (esps s') = length (esps s) \<and>
        (\<forall>j < length (esps s).
           (ref (entity (esps s ! j)) = e \<longrightarrow> isEmpty (bin (esps s' ! j))) \<and>
           (ref (entity (esps s ! j)) \<noteq> e \<longrightarrow> esps s' ! j = esps s ! j))" for e
    using AncestryChanged_result [OF inv, of e] by blast
  have frame: "esps (fst (snd (RenderStepped cam rd order s))) = esps s \<and>
        instances (world (fst (snd (RenderStepped cam rd order s)))) = instances (world s)"
    for cam rd order
  proof -
    obtain called s' r where run: "RenderStepped cam rd order s = (called, s', r)"
      by (cases "RenderStepped cam rd order s") auto
    from RenderStepped_result(1,2) [OF run] show ?thesis by (simp add: run)
  qed
  from reg inj present_registered [OF assms] new gone frame show ?thesis by blast
qed

theorem registry_invariant_witness:
  "reachable one_overlay {1} [] \<and> reachable two_overlays {1} [] \<and>
   instances (world one_overlay) 1 = Some 0 \<and> 0 < length (esps one_overlay) \<and>
   ref (entity (esps one_overlay ! 0)) = 1 \<and> \<not> isEmpty (bin (esps one_overlay ! 0)) \<and>
   ESP_new 24 (r6 1) one_overlay = Some two_overlays \<and>
   length (esps two_overlays) = 2 \<and>
   esps two_overlays ! 0 = esps one_overlay ! 0 \<and>
   ref (entity (esps two_overlays ! 1)) = 1 \<and>
   \<not> isEmpty (bin (esps two_overlays ! 1)) \<and>
   instances (world two_overlays) 1 = Some 1 \<and>
   (\<exists>s'. AncestryChanged 1 True two_overlays = Some s' \<and> instances (world s') 1 = None \<and>
      isEmpty (bin (esps s' ! 0)) \<and> isEmpty (bin (esps s' ! 1)))"
proof -
  note f = second_overlay_facts [OF two_overlays_def]
  from f(7) have r2: "reachable two_overlays {1} []" by simp
  note t1 = registry_invariant [OF one_overlay_reachable]
  note t2 = registry_invariant [OF r2]
  have i1: "instances (world one_overlay) 1 = Some 0" by (simp add: one_overlay_facts)
  from t1 i1 have a: "0 < length (esps one_overlay) \<and> ref (entity (esps one_overlay ! 0)) = 1 \<and>
      \<not> isEmpty (bin (esps one_overlay ! 0))" by blast
  from t1 f(1) have b: "length (esps two_overlays) = length (esps one_overlay) + 1 \<and>
      (\<forall>j < length (esps one_overlay). esps two_overlays ! j = esps one_overlay ! j) \<and>
      entity (esps two_overlays ! length (esps one_overlay)) = r6 1 \<and>
      \<not> isEmpty (bin (esps two_overlays ! length (esps one_overlay))) \<and>
      instances (world two_overlays) =
        (instances (world one_overlay))(ref (r6 1) \<mapsto> length (esps one_overlay))" by blast
  from b have b': "length (esps two_overlays) = 2"
    "esps two_overlays ! 0 = esps one_overlay ! 0"
    "ref (entity (esps two_overlays ! 1)) = 1"
    "\<not> isEmpty (bin (esps two_overlays ! 1))"
    "instances (world two_overlays) 1 = Some 1"
    by (simp_all add: one_overlay_facts r6_parts)
  from t2 obtain s' where c: "AncestryChanged 1 True two_overlays = Some s'"
    "instances (world s') = (instances (world two_overlays))(1 := None)"
    "\<forall>j < length (esps two_overlays).
       (ref (entity (esps two_overlays ! j)) = 1 \<longrightarrow> isEmpty (bin (esps s' ! j))) \<and>
       (ref (entity (esps two_overlays ! j)) \<noteq> 1 \<longrightarrow> esps s' ! j = esps two_overlays ! j)"
    by blast
  have e0: "ref (entity (esps two_overlays ! 0)) = 1"
    by (simp add: b'(2) one_overlay_facts r6_parts)
  from c(3) [THEN spec, of 0] e0 b'(1) have d0: "isEmpty (bin (esps s' ! 0))" by simp
  from c(3) [THEN spec, of 1] b'(3) b'(1) have d1: "isEmpty (bin (esps s' ! 1))" by simp
  note d0 d1
  with c have "\<exists>s'. AncestryChanged 1 True two_overlays = Some s' \<and> instances (world s') 1 = None \<and>
      isEmpty (bin (esps s' ! 0)) \<and> isEmpty (bin (esps s' ! 1))"
    by (intro exI [of _ s']) simp
  with one_overlay_reachable r2 i1 a f(1) b' show ?thesis by blast
qed

text \<open>
  The claim as it was stated fails in three ways. After \<open>new ESP\<close> twice for entity
  \<open>1\<close> there are two overlays of entity \<open>1\<close>, neither of them destroyed; the registry
  refers to the second. When entity \<open>1\<close> leaves the world while its constructor waits,
  the constructor enters the overlay all the same: the state \<open>one_overlay\<close> is reached
  with no entity in the world and an entry for entity \<open>1\<close>. And while the constructor
  waits, entity \<open>1\<close> is in the world and has no entry.
\<close>

theorem overlays_beside_the_registry:
  "reachable two_overlays {1} [] \<and> length (esps two_overlays) = 2 \<and>
   ref (entity (esps two_overlays ! 0)) = 1 \<and> ref (entity (esps two_overlays ! 1)) = 1 \<and>
   \<not> isEmpty (bin (esps two_overlays ! 0)) \<and> \<not> isEmpty (bin (esps two_overlays ! 1)) \<and>
   instances (world two_overlays) 1 = Some 1 \<and>
   reachable one_overlay {} [] \<and> instances (world one_overlay) 1 = Some 0 \<and>
   reachable start {1} [r6 1] \<and> instances (world start) 1 = None"
proof -
  note f = second_overlay_facts [OF two_overlays_def]
  from f(7) have "reachable two_overlays {1} []" by simp
  moreover have "instances (world start) 1 = None" by (simp add: start_def)
  ultimately show ?thesis
    using f one_overlay_late waiting_reachable by (simp add: one_overlay_facts r6_parts)
qed

end
